theory Spec2Isabelle
  imports Complex_Main "HOL-Library.AList" "HOL-Library.Sublist"
begin

section \<open>Python values and exceptions\<close>

text \<open>
  The exceptions the modelled code can raise. A call returns a pair: the exception raised
  (if any) and the object as the call left it, because a Python exception does not undo the
  assignments made before it.
\<close>

datatype error = IndexError | KeyError | ValueError | TypeError | HomeAssistantError string

text \<open>
  The Python values that reach the modelled code: \<open>None\<close>, a number (\<open>int\<close> or a finite
  \<open>float\<close>, both read as the rational they denote; NaN and the infinities are outside the
  model) or a string.
\<close>

datatype pyval = PNone | PNum rat | PStr string

fun isinstance_number :: "pyval \<Rightarrow> bool" where
  "isinstance_number (PNum _) = True"
| "isinstance_number _ = False"

text \<open>A \<open>datetime\<close> is its calendar day (the proleptic ordinal) and the second within the day.\<close>

type_synonym datetime = "nat \<times> nat"

definition date :: "datetime \<Rightarrow> nat" where
  "date t = fst t"

section \<open>DailyHistory\<close>

text \<open>
  \<open>_days\<close> is \<open>None\<close> or a deque, oldest day first; \<open>_max_dict\<close> is a dict, kept as an
  association list in insertion order; the attribute \<open>max\<close> is \<open>max_attr\<close>.
\<close>

record daily_history =
  max_length :: int
  days :: "nat list option"
  max_dict :: "(nat \<times> rat) list"
  max_attr :: "rat option"

definition DailyHistory :: "int \<Rightarrow> daily_history" where
  "DailyHistory n = \<lparr>max_length = n, days = None, max_dict = [], max_attr = None\<rparr>"

text \<open>\<open>max(self._max_dict.values())\<close>: \<open>ValueError\<close> on an empty dict.\<close>

definition max_values :: "(nat \<times> rat) list \<Rightarrow> error + rat" where
  "max_values d = (case map snd d of [] \<Rightarrow> Inl ValueError | v # vs \<Rightarrow> Inr (fold max vs v))"

text \<open>
  The last three lines of \<open>_add_day\<close>: append the day, and record the value when it is a
  number.
\<close>

definition append_day :: "daily_history \<Rightarrow> nat list \<Rightarrow> nat \<Rightarrow> pyval \<Rightarrow> error option \<times> daily_history" where
  "append_day h ds day v =
     (let h1 = h\<lparr>days := Some (ds @ [day])\<rparr>
      in case v of
           PNum x \<Rightarrow> (None, h1\<lparr>max_dict := AList.update day x (max_dict h1)\<rparr>)
         | _ \<Rightarrow> (None, h1))"

text \<open>
  \<open>_add_day\<close>: when the deque is as long as \<open>max_length\<close>, pop the oldest day
  (\<open>IndexError\<close> on an empty deque) and delete its aggregate (\<open>KeyError\<close> when it has none,
  the day already popped); then append.
\<close>

definition add_day :: "daily_history \<Rightarrow> nat \<Rightarrow> pyval \<Rightarrow> error option \<times> daily_history" where
  "add_day h day v =
     (case days h of
        None \<Rightarrow> (Some TypeError, h)
      | Some ds \<Rightarrow>
          if int (length ds) = max_length h then
            (case ds of
               [] \<Rightarrow> (Some IndexError, h)
             | oldest # rest \<Rightarrow>
                 if map_of (max_dict h) oldest = None
                 then (Some KeyError, h\<lparr>days := Some rest\<rparr>)
                 else append_day (h\<lparr>days := Some rest,
                                     max_dict := AList.delete oldest (max_dict h)\<rparr>) rest day v)
          else append_day h ds day v)"

text \<open>
  \<open>add_measurement\<close>; \<open>now\<close> is what \<open>datetime.now()\<close> returns at the call. A value that
  is not a number returns at once. Otherwise the first branch opens the first day, the
  second compares the day with the last one of the deque, and the maximum is recomputed
  after all three outcomes of the comparison.
\<close>

definition add_measurement ::
    "datetime \<Rightarrow> daily_history \<Rightarrow> pyval \<Rightarrow> datetime option \<Rightarrow> error option \<times> daily_history" where
  "add_measurement now h v timestamp =
     (let day = date (case timestamp of None \<Rightarrow> now | Some t \<Rightarrow> t)
      in case v of
           PNum x \<Rightarrow>
             (let (e, h1) =
                (case days h of
                   None \<Rightarrow> add_day (h\<lparr>days := Some []\<rparr>) day v
                 | Some ds \<Rightarrow>
                     if ds = [] then (Some IndexError, h)
                     else
                       (let current_day = last ds
                        in if day = current_day then
                             (case map_of (max_dict h) day of
                                None \<Rightarrow> (Some KeyError, h)
                              | Some m \<Rightarrow>
                                  (None, h\<lparr>max_dict := AList.update day (max x m) (max_dict h)\<rparr>))
                           else if day > current_day then add_day h day v
                           else (None, h)))
              in case e of
                   Some err \<Rightarrow> (Some err, h1)
                 | None \<Rightarrow>
                     (case max_values (max_dict h1) of
                        Inl err \<Rightarrow> (Some err, h1)
                      | Inr m \<Rightarrow> (None, h1\<lparr>max_attr := Some m\<rparr>)))
         | _ \<Rightarrow> (None, h))"

text \<open>
  A sequence of calls on one object: each call is the clock reading, the value and the
  timestamp argument. A call that raises leaves the object as it is at the raise, and the
  next call goes on from there.
\<close>

type_synonym call = "datetime \<times> pyval \<times> datetime option"

definition feed :: "daily_history \<Rightarrow> call list \<Rightarrow> daily_history" where
  "feed h cs = foldl (\<lambda>h (now, v, ts). snd (add_measurement now h v ts)) h cs"

text \<open>The calls that feed numeric samples, each with its own timestamp.\<close>

definition numeric_calls :: "(rat \<times> datetime) list \<Rightarrow> call list" where
  "numeric_calls xs = map (\<lambda>(x, t). (t, PNum x, Some t)) xs"

text \<open>
  The days of a sample list in increasing order without repetition, the last \<open>n\<close> of
  them, and the greatest sample value on those days.
\<close>

definition distinct_days :: "(rat \<times> datetime) list \<Rightarrow> nat list" where
  "distinct_days xs = sort (remdups (map (\<lambda>(x, t). date t) xs))"

definition recent_days :: "int \<Rightarrow> (rat \<times> datetime) list \<Rightarrow> nat list" where
  "recent_days n xs = (let ds = distinct_days xs in drop (length ds - nat n) ds)"

definition recent_max :: "int \<Rightarrow> (rat \<times> datetime) list \<Rightarrow> rat option" where
  "recent_max n xs =
     (let vs = map fst (filter (\<lambda>(x, t). date t \<in> set (recent_days n xs)) xs)
      in if vs = [] then None else Some (Max (set vs)))"

text \<open>
  The reading of the specification by the calendar: the greatest sample value among the
  days \<open>d\<close> with \<open>latest - n < d \<le> latest\<close>, where \<open>latest\<close> is the latest day fed.
\<close>

definition calendar_window_max :: "int \<Rightarrow> (rat \<times> datetime) list \<Rightarrow> rat option" where
  "calendar_window_max n xs =
     (if xs = [] then None
      else
        (let latest = Max (set (map (\<lambda>(x, t). date t) xs));
             vs = map fst (filter (\<lambda>(x, t). int latest - n < int (date t)) xs)
         in if vs = [] then None else Some (Max (set vs))))"

text \<open>
  The invariant of a history: the keys of the dict are the retained days, in the same
  order and strictly increasing; \<open>max\<close> is the maximum of the dict, \<open>None\<close> while the dict
  is empty; a positive \<open>max_length\<close> bounds the number of days.
\<close>

definition hist_inv :: "daily_history \<Rightarrow> bool" where
  "hist_inv h \<longleftrightarrow>
     map fst (max_dict h) = (case days h of None \<Rightarrow> [] | Some ds \<Rightarrow> ds) \<and>
     sorted_wrt (<) (map fst (max_dict h)) \<and>
     max_attr h = (case max_values (max_dict h) of Inl _ \<Rightarrow> None | Inr m \<Rightarrow> Some m) \<and>
     (0 < max_length h \<longrightarrow> int (length (max_dict h)) \<le> max_length h)"

text \<open>The days of a sample list, and the greatest sample value of one day.\<close>

abbreviation sample_days :: "(rat \<times> datetime) list \<Rightarrow> nat list" where
  "sample_days xs \<equiv> map (\<lambda>(x, t). date t) xs"

definition day_max :: "(rat \<times> datetime) list \<Rightarrow> nat \<Rightarrow> rat" where
  "day_max xs d = Max (set (map fst (filter (\<lambda>(x, t). date t = d) xs)))"

section \<open>Plant\<close>

subsection \<open>Constants\<close>

text \<open>The constants of the host platform that the module imports, and the module's own.\<close>

definition STATE_OK :: string where "STATE_OK = ''ok''"
definition STATE_PROBLEM :: string where "STATE_PROBLEM = ''problem''"
definition STATE_UNAVAILABLE :: string where "STATE_UNAVAILABLE = ''unavailable''"
definition STATE_UNKNOWN :: string where "STATE_UNKNOWN = ''unknown''"
definition CONF_SENSORS :: string where "CONF_SENSORS = ''sensors''"
definition ATTR_STATE :: string where "ATTR_STATE = ''state''"
definition ATTR_UNIT_OF_MEASUREMENT :: string where
  "ATTR_UNIT_OF_MEASUREMENT = ''unit_of_measurement''"
definition CONF_MINIMUM :: string where "CONF_MINIMUM = ''minimum''"
definition CONF_MAXIMUM :: string where "CONF_MAXIMUM = ''maximum''"
definition TEMP_CELSIUS :: string where "TEMP_CELSIUS = [CHR 0xC2, CHR 0xB0, CHR ''C'']"

definition PREFIX_MIN :: string where "PREFIX_MIN = ''min_''"
definition PREFIX_MAX :: string where "PREFIX_MAX = ''max_''"
definition PROBLEM_NONE :: string where "PROBLEM_NONE = ''none''"

definition READING_LIGHT_LUX :: string where "READING_LIGHT_LUX = ''light_lux''"
definition READING_TEMP :: string where "READING_TEMP = ''temp''"
definition READING_ENV_HUMID :: string where "READING_ENV_HUMID = ''env_humid''"
definition READING_SOIL_MOIST :: string where "READING_SOIL_MOIST = ''soil_moist''"
definition READING_SOIL_EC :: string where "READING_SOIL_EC = ''soil_ec''"
definition READING_BATTERY :: string where "READING_BATTERY = ''battery''"

text \<open>The dict \<open>READINGS\<close>, in the order of its literal: reading name and default unit.\<close>

definition READINGS :: "(string \<times> string) list" where
  "READINGS =
     [(READING_LIGHT_LUX, ''lux''),
      (READING_TEMP, TEMP_CELSIUS),
      (READING_ENV_HUMID, ''%''),
      (READING_SOIL_MOIST, ''%''),
      (READING_SOIL_EC, [CHR 0xC2, CHR 0xB5, CHR ''S'', CHR ''/'', CHR ''c'', CHR ''m'']),
      (READING_BATTERY, ''%'')]"

subsection \<open>Python operators on the modelled values\<close>

text \<open>\<open>sub in s\<close> on two strings.\<close>

fun contains :: "string \<Rightarrow> string \<Rightarrow> bool" where
  "contains sub [] = (sub = [])"
| "contains sub (c # cs) = (prefix sub (c # cs) \<or> contains sub cs)"

text \<open>\<open>sep.join(xs)\<close>.\<close>

fun join :: "string \<Rightarrow> string list \<Rightarrow> string" where
  "join sep [] = []"
| "join sep [x] = x"
| "join sep (x # y # ys) = x @ sep @ join sep (y # ys)"

text \<open>The truth value of \<open>None\<close>, a number and a string.\<close>

fun truthy :: "pyval \<Rightarrow> bool" where
  "truthy PNone = False"
| "truthy (PNum x) = (x \<noteq> 0)"
| "truthy (PStr s) = (s \<noteq> [])"

text \<open>
  \<open>float(v)\<close>. What \<open>float\<close> makes of a string is the parameter \<open>pf\<close>, \<open>None\<close> where it
  raises \<open>ValueError\<close>; nothing is assumed about it. A number is taken as the rational
  it denotes: the rounding of an \<open>int\<close> beyond \<open>2 ^ 53\<close> to the nearest double, and the
  \<open>OverflowError\<close> of \<open>float\<close> on an \<open>int\<close> beyond the range of a double, are outside
  the model.
\<close>

fun py_float :: "(string \<Rightarrow> rat option) \<Rightarrow> pyval \<Rightarrow> error + rat" where
  "py_float pf PNone = Inl TypeError"
| "py_float pf (PNum x) = Inr x"
| "py_float pf (PStr s) = (case pf s of None \<Rightarrow> Inl ValueError | Some x \<Rightarrow> Inr x)"

text \<open>\<open>int(x)\<close> on a finite float: truncation towards zero.\<close>

definition py_int :: "rat \<Rightarrow> rat" where
  "py_int x = of_int (if 0 \<le> x then \<lfloor>x\<rfloor> else \<lceil>x\<rceil>)"

subsection \<open>Data\<close>

text \<open>
  The record of one reading is a dict with the five keys \<open>CONF_SENSORS\<close>, \<open>ATTR_STATE\<close>,
  \<open>ATTR_UNIT_OF_MEASUREMENT\<close>, \<open>CONF_MINIMUM\<close> and \<open>CONF_MAXIMUM\<close>, created by
  \<open>_add_reading\<close>; no key is added or removed later. Iterating the dict yields its keys.
\<close>

record reading_record =
  r_sensors :: "string list"
  r_state :: pyval
  r_unit_of_measurement :: string
  r_minimum :: pyval
  r_maximum :: pyval

definition reading_keys :: "reading_record \<Rightarrow> string list" where
  "reading_keys r =
     [CONF_SENSORS, ATTR_STATE, ATTR_UNIT_OF_MEASUREMENT, CONF_MINIMUM, CONF_MAXIMUM]"

text \<open>
  The part of the configuration the entity reads: the items of \<open>config["sensors"]\<close>
  (reading name, entity id), the other entries through \<open>config.get\<close>, and
  \<open>config["check_days"]\<close>.
\<close>

record config =
  c_sensors :: "(string \<times> string) list"
  c_get :: "string \<rightharpoonup> pyval"
  c_check_days :: int

definition config_get :: "config \<Rightarrow> string \<Rightarrow> pyval" where
  "config_get c k = (case c_get c k of None \<Rightarrow> PNone | Some v \<Rightarrow> v)"

text \<open>
  The attributes \<open>_config\<close>, \<open>_sensors\<close>, \<open>_readings\<close>, \<open>_state\<close>, \<open>_problems\<close> and
  \<open>_brightness_history\<close> of a \<open>Plant\<close>. Both dicts are association lists in insertion
  order.
\<close>

record plant =
  p_config :: config
  p_sensors :: "(string \<times> string) list"
  p_readings :: "(string \<times> reading_record) list"
  p_state :: "string option"
  p_problems :: string
  p_brightness_history :: daily_history

text \<open>The state object of the host: its state string, time stamp and attributes.\<close>

record new_state =
  ns_state :: string
  ns_last_updated :: datetime
  ns_attributes :: "string \<rightharpoonup> string"

text \<open>
  The state registry of the host, entity id to state string, and its \<open>is_state\<close>: true
  when the entity exists and has the given state.
\<close>

type_synonym hass_states = "string \<rightharpoonup> string"

definition is_state :: "hass_states \<Rightarrow> string \<Rightarrow> string \<Rightarrow> bool" where
  "is_state st entity_id s = (st entity_id = Some s)"

subsection \<open>Construction and sensor association\<close>

text \<open>\<open>_add_reading\<close>: \<open>READINGS[reading]\<close> raises \<open>KeyError\<close> before anything is stored.\<close>

definition add_reading :: "plant \<Rightarrow> string \<Rightarrow> string \<Rightarrow> error + plant" where
  "add_reading p reading entity_id =
     (case map_of READINGS reading of
        None \<Rightarrow> Inl KeyError
      | Some unit \<Rightarrow>
          Inr (p\<lparr>p_readings :=
                 AList.update reading
                   \<lparr>r_sensors = [entity_id],
                    r_state = PNone,
                    r_unit_of_measurement = unit,
                    r_minimum = config_get (p_config p) (PREFIX_MIN @ reading),
                    r_maximum = config_get (p_config p) (PREFIX_MAX @ reading)\<rparr>
                   (p_readings p)\<rparr>))"

text \<open>The loop of \<open>__init__\<close> over the statically configured sensors.\<close>

fun init_sensors :: "plant \<Rightarrow> (string \<times> string) list \<Rightarrow> error + plant" where
  "init_sensors p [] = Inr p"
| "init_sensors p ((reading, entity_id) # rest) =
     (case add_reading (p\<lparr>p_sensors := AList.update entity_id reading (p_sensors p)\<rparr>)
             reading entity_id of
        Inl e \<Rightarrow> Inl e
      | Inr p1 \<Rightarrow> init_sensors p1 rest)"

text \<open>
  \<open>Plant.__init__\<close>. An exception leaves no object. The history is created after the
  loop, which does not touch it. The name of the plant, the prefix of the discovered
  sensors and the log messages play no part in what follows and are left out.
\<close>

definition Plant :: "config \<Rightarrow> error + plant" where
  "Plant c =
     init_sensors
       \<lparr>p_config = c, p_sensors = [], p_readings = [], p_state = None,
        p_problems = PROBLEM_NONE,
        p_brightness_history = DailyHistory (c_check_days c)\<rparr>
       (c_sensors c)"

text \<open>
  \<open>_associate_sensor\<close>: the loop over \<open>READINGS\<close>; the first reading whose name is in
  the entity id is cached and gets the sensor; no match raises.
\<close>

fun associate_loop :: "plant \<Rightarrow> string \<Rightarrow> string list \<Rightarrow> (error + string) \<times> plant" where
  "associate_loop p entity_id [] =
     (Inl (HomeAssistantError (''Cannot extract reading from sensor '' @ entity_id)), p)"
| "associate_loop p entity_id (reading # rest) =
     (if contains reading entity_id then
        (let p1 = p\<lparr>p_sensors := AList.update entity_id reading (p_sensors p)\<rparr>
         in case map_of (p_readings p1) reading of
              Some r \<Rightarrow>
                (Inr reading,
                 p1\<lparr>p_readings :=
                      AList.update reading (r\<lparr>r_sensors := r_sensors r @ [entity_id]\<rparr>)
                        (p_readings p1)\<rparr>)
            | None \<Rightarrow>
                (case add_reading p1 reading entity_id of
                   Inl e \<Rightarrow> (Inl e, p1)
                 | Inr p2 \<Rightarrow> (Inr reading, p2)))
      else associate_loop p entity_id rest)"

definition associate_sensor :: "plant \<Rightarrow> string \<Rightarrow> (error + string) \<times> plant" where
  "associate_sensor p entity_id = associate_loop p entity_id (map fst READINGS)"

text \<open>
  \<open>self._sensors.get(entity_id) or self._associate_sensor(entity_id)\<close>: the cached
  reading when there is one and it is not the empty string.
\<close>

definition resolve_reading :: "plant \<Rightarrow> string \<Rightarrow> (error + string) \<times> plant" where
  "resolve_reading p entity_id =
     (case map_of (p_sensors p) entity_id of
        Some reading \<Rightarrow>
          if reading \<noteq> [] then (Inr reading, p) else associate_sensor p entity_id
      | None \<Rightarrow> associate_sensor p entity_id)"

subsection \<open>Threshold checks and the overall status\<close>

text \<open>
  \<open>_check_min\<close>: for the light reading the value compared is the maximum of the
  history. The bound is tested for truth first; \<open>float\<close> of the bound is evaluated before
  the comparison, which raises \<open>TypeError\<close> when the value is not a number.
\<close>

definition check_min ::
    "(string \<Rightarrow> rat option) \<Rightarrow> plant \<Rightarrow> string \<Rightarrow> pyval \<Rightarrow> error + string option" where
  "check_min pf p reading state0 =
     (case map_of (p_readings p) reading of
        None \<Rightarrow> Inl KeyError
      | Some r \<Rightarrow>
          (let min_value = r_minimum r;
               state = (if reading = READING_LIGHT_LUX
                        then (case max_attr (p_brightness_history p) of
                                None \<Rightarrow> PNone | Some m \<Rightarrow> PNum m)
                        else state0)
           in if \<not> truthy min_value then Inr None
              else
                (case py_float pf min_value of
                   Inl e \<Rightarrow> Inl e
                 | Inr b \<Rightarrow>
                     (case state of
                        PNum x \<Rightarrow> if x < b then Inr (Some (reading @ '' low'')) else Inr None
                      | _ \<Rightarrow> Inl TypeError))))"

definition check_max ::
    "(string \<Rightarrow> rat option) \<Rightarrow> plant \<Rightarrow> string \<Rightarrow> pyval \<Rightarrow> error + string option" where
  "check_max pf p reading state =
     (case map_of (p_readings p) reading of
        None \<Rightarrow> Inl KeyError
      | Some r \<Rightarrow>
          (let max_value = r_maximum r
           in if \<not> truthy max_value then Inr None
              else
                (case py_float pf max_value of
                   Inl e \<Rightarrow> Inl e
                 | Inr b \<Rightarrow>
                     (case state of
                        PNum x \<Rightarrow> if x > b then Inr (Some (reading @ '' high'')) else Inr None
                      | _ \<Rightarrow> Inl TypeError))))"

text \<open>
  \<open>_check_reading\<close>. The result of \<open>_check_min\<close> is \<open>None\<close> or a non-empty string, so
  \<open>or\<close> goes on to \<open>_check_max\<close> exactly when it is \<open>None\<close>.
\<close>

definition check_reading ::
    "(string \<Rightarrow> rat option) \<Rightarrow> plant \<Rightarrow> string \<Rightarrow> error + string option" where
  "check_reading pf p reading =
     (case map_of (p_readings p) reading of
        None \<Rightarrow> Inl KeyError
      | Some r \<Rightarrow>
          (let state = r_state r
           in if state = PStr STATE_UNAVAILABLE then
                Inr (Some (reading @ '' '' @ STATE_UNAVAILABLE))
              else if state \<noteq> PNone then
                (case check_min pf p reading state of
                   Inl e \<Rightarrow> Inl e
                 | Inr (Some problem) \<Rightarrow> Inr (Some problem)
                 | Inr None \<Rightarrow> check_max pf p reading state)
              else Inr None))"

text \<open>The list comprehension of \<open>_update_state\<close>: the first exception ends it.\<close>

fun check_all ::
    "(string \<Rightarrow> rat option) \<Rightarrow> plant \<Rightarrow> string list \<Rightarrow> error + string option list" where
  "check_all pf p [] = Inr []"
| "check_all pf p (reading # rest) =
     (case check_reading pf p reading of
        Inl e \<Rightarrow> Inl e
      | Inr x \<Rightarrow>
          (case check_all pf p rest of
             Inl e \<Rightarrow> Inl e
           | Inr xs \<Rightarrow> Inr (x # xs)))"

text \<open>
  \<open>_update_state\<close>: the problems are the results that are not \<open>None\<close>, in the iteration
  order of \<open>_readings\<close>. Scheduling the update of the host is not modelled.
\<close>

definition update_state :: "(string \<Rightarrow> rat option) \<Rightarrow> plant \<Rightarrow> error option \<times> plant" where
  "update_state pf p =
     (case check_all pf p (map fst (p_readings p)) of
        Inl e \<Rightarrow> (Some e, p)
      | Inr results \<Rightarrow>
          (let problems = map the (filter (\<lambda>x. x \<noteq> None) results)
           in if problems \<noteq> [] then
                (None,
                 p\<lparr>p_state :=
                      Some (if list_all (contains STATE_UNAVAILABLE) problems
                            then STATE_UNAVAILABLE else STATE_PROBLEM),
                    p_problems := join '', '' problems\<rparr>)
              else (None, p\<lparr>p_state := Some STATE_OK, p_problems := PROBLEM_NONE\<rparr>)))"

subsection \<open>The state-change callback\<close>

text \<open>
  The second half of \<open>state_changed\<close>, after the test that ignores a state: convert the
  state string, store it, feed the history when the reading is the light, take the unit of
  the state object when it carries one, and recompute the status.
\<close>

definition store_state ::
    "(string \<Rightarrow> rat option) \<Rightarrow> datetime \<Rightarrow> plant \<Rightarrow> string \<Rightarrow> new_state
       \<Rightarrow> error option \<times> plant" where
  "store_state pf now p reading ns =
     (case pf (ns_state ns) of
        None \<Rightarrow> (Some ValueError, p)
      | Some f \<Rightarrow>
          (let x = (if reading \<notin> set [READING_TEMP, READING_ENV_HUMID] then py_int f else f)
           in case map_of (p_readings p) reading of
                None \<Rightarrow> (Some KeyError, p)
              | Some r \<Rightarrow>
                  (let p2 = p\<lparr>p_readings :=
                               AList.update reading (r\<lparr>r_state := PNum x\<rparr>) (p_readings p)\<rparr>;
                       eh = (if reading = READING_LIGHT_LUX
                             then add_measurement now (p_brightness_history p2) (PNum x)
                                    (Some (ns_last_updated ns))
                             else (None, p_brightness_history p2));
                       p3 = p2\<lparr>p_brightness_history := snd eh\<rparr>
                   in case fst eh of
                        Some err \<Rightarrow> (Some err, p3)
                      | None \<Rightarrow>
                          (case ns_attributes ns ATTR_UNIT_OF_MEASUREMENT of
                             None \<Rightarrow> update_state pf p3
                           | Some u \<Rightarrow>
                               update_state pf
                                 (p3\<lparr>p_readings :=
                                      AList.map_entry reading
                                        (\<lambda>r'. r'\<lparr>r_unit_of_measurement := u\<rparr>)
                                        (p_readings p3)\<rparr>)))))"

text \<open>
  \<open>state_changed\<close>, with the registry of the host and the clock at the call. The test of
  the sibling sensors iterates \<open>self._readings[reading]\<close>, the record of the reading
  (\<open>KeyError\<close> when the reading has none).
\<close>

definition state_changed ::
    "(string \<Rightarrow> rat option) \<Rightarrow> hass_states \<Rightarrow> datetime \<Rightarrow> plant \<Rightarrow> string \<Rightarrow> new_state
       \<Rightarrow> error option \<times> plant" where
  "state_changed pf st now p entity_id ns =
     (let state = ns_state ns
      in case resolve_reading p entity_id of
           (Inl e, p1) \<Rightarrow> (Some e, p1)
         | (Inr reading, p1) \<Rightarrow>
             if state = STATE_UNKNOWN then (None, p1)
             else if state = STATE_UNAVAILABLE then
               (case map_of (p_readings p1) reading of
                  None \<Rightarrow> (Some KeyError, p1)
                | Some r \<Rightarrow>
                    if list_ex (\<lambda>sensor. \<not> is_state st sensor STATE_UNAVAILABLE) (reading_keys r)
                    then (None, p1)
                    else store_state pf now p1 reading ns)
             else store_state pf now p1 reading ns)"

text \<open>
  A sequence of callbacks on one plant: registry, clock, entity id and state object of
  each. A callback that raises leaves the plant as it is at the raise.
\<close>

type_synonym event = "hass_states \<times> datetime \<times> string \<times> new_state"

definition run :: "(string \<Rightarrow> rat option) \<Rightarrow> plant \<Rightarrow> event list \<Rightarrow> plant" where
  "run pf p evs = foldl (\<lambda>p (st, now, entity_id, ns). snd (state_changed pf st now p entity_id ns)) p evs"

subsection \<open>Invariant of a plant, and the registries of the host considered\<close>

text \<open>
  Every reading record belongs to a name of \<open>READINGS\<close> and its stored state is \<open>None\<close>
  or a number; every cached sensor points to a reading that has a record; the status is
  not \<open>STATE_UNAVAILABLE\<close>.
\<close>

definition readings_ok :: "(string \<times> reading_record) list \<Rightarrow> bool" where
  "readings_ok rs \<longleftrightarrow>
     (\<forall>(k, r)\<in>set rs.
        k \<in> set (map fst READINGS) \<and> (r_state r = PNone \<or> isinstance_number (r_state r)))"

definition sensors_ok :: "(string \<times> string) list \<Rightarrow> (string \<times> reading_record) list \<Rightarrow> bool" where
  "sensors_ok ss rs \<longleftrightarrow> (\<forall>(e, k)\<in>set ss. map_of rs k \<noteq> None)"

definition plant_inv :: "plant \<Rightarrow> bool" where
  "plant_inv p \<longleftrightarrow>
     readings_ok (p_readings p) \<and> sensors_ok (p_sensors p) (p_readings p) \<and>
     p_state p \<noteq> Some STATE_UNAVAILABLE"

text \<open>A registry with no entity named like a key of a reading record.\<close>

definition registry_ok :: "hass_states \<Rightarrow> bool" where
  "registry_ok st \<longleftrightarrow>
     (\<forall>k\<in>set [CONF_SENSORS, ATTR_STATE, ATTR_UNIT_OF_MEASUREMENT, CONF_MINIMUM, CONF_MAXIMUM].
        st k = None)"

subsection \<open>Concrete inputs\<close>

text \<open>
  A configuration with a temperature sensor and a soil moisture sensor, the bounds of the
  temperature left open, and the plant in which the two readings have given states.
\<close>

definition example_config :: "pyval \<Rightarrow> pyval \<Rightarrow> config" where
  "example_config lo hi =
     \<lparr>c_sensors = [(''temp'', ''sensor.balcony_temp''), (''soil_moist'', ''sensor.balcony_moisture'')],
      c_get = [''min_temp'' \<mapsto> lo, ''max_temp'' \<mapsto> hi, ''min_soil_moist'' \<mapsto> PNum 15],
      c_check_days = 3\<rparr>"

definition example_plant :: "pyval \<Rightarrow> pyval \<Rightarrow> pyval \<Rightarrow> pyval \<Rightarrow> plant" where
  "example_plant lo hi s1 s2 =
     \<lparr>p_config = example_config lo hi,
      p_sensors = [(''sensor.balcony_temp'', ''temp''), (''sensor.balcony_moisture'', ''soil_moist'')],
      p_readings =
        [(''temp'',
          \<lparr>r_sensors = [''sensor.balcony_temp''], r_state = s1,
           r_unit_of_measurement = TEMP_CELSIUS, r_minimum = lo, r_maximum = hi\<rparr>),
         (''soil_moist'',
          \<lparr>r_sensors = [''sensor.balcony_moisture''], r_state = s2,
           r_unit_of_measurement = ''%'', r_minimum = PNum 15, r_maximum = PNone\<rparr>)],
      p_state = None, p_problems = ''none'',
      p_brightness_history = DailyHistory 3\<rparr>"

text \<open>A configuration whose only sensor is a light sensor, and the plant constructed from it.\<close>

definition light_config :: config where
  "light_config =
     \<lparr>c_sensors = [(''light_lux'', ''sensor.plant_light'')], c_get = Map.empty, c_check_days = 3\<rparr>"

definition light_plant :: plant where
  "light_plant =
     \<lparr>p_config = light_config,
      p_sensors = [(''sensor.plant_light'', ''light_lux'')],
      p_readings =
        [(''light_lux'',
          \<lparr>r_sensors = [''sensor.plant_light''], r_state = PNone,
           r_unit_of_measurement = ''lux'', r_minimum = PNone, r_maximum = PNone\<rparr>)],
      p_state = None, p_problems = ''none'',
      p_brightness_history = DailyHistory 3\<rparr>"


section \<open>Properties of DailyHistory\<close>

subsection \<open>The invariant\<close>

lemma hist_inv_DailyHistory: "hist_inv (DailyHistory n)"
  by (simp add: hist_inv_def DailyHistory_def max_values_def)

lemma max_values_Max: "d \<noteq> [] \<Longrightarrow> max_values d = Inr (Max (snd ` set d))"
  by (cases d) (simp_all add: max_values_def Max.set_eq_fold [symmetric])

lemma sorted_wrt_last: "sorted_wrt (<) ks \<Longrightarrow> ks \<noteq> [] \<Longrightarrow> x \<in> set ks \<Longrightarrow> x \<le> last (ks::nat list)"
proof (induction ks)
  case Nil
  then show ?case by simp
next
  case (Cons a ks)
  show ?case
  proof (cases "ks = []")
    case True
    with Cons.prems show ?thesis by simp
  next
    case False
    then have "last ks \<in> set ks" by simp
    with Cons False show ?thesis by (auto intro: less_imp_le)
  qed
qed

text \<open>What a call with a number does, case by case.\<close>

lemma add_measurement_first:
  assumes "days h = None" "max_dict h = []" "max_length h \<noteq> 0"
  shows "add_measurement now h (PNum x) ts =
         (None, h\<lparr>days := Some [date (case ts of None \<Rightarrow> now | Some t \<Rightarrow> t)],
                   max_dict := [(date (case ts of None \<Rightarrow> now | Some t \<Rightarrow> t), x)],
                   max_attr := Some x\<rparr>)"
  using assms by (simp add: add_measurement_def add_day_def append_day_def max_values_def Let_def)

lemma add_measurement_first_zero:
  assumes "days h = None" "max_length h = 0"
  shows "add_measurement now h (PNum x) ts = (Some IndexError, h\<lparr>days := Some []\<rparr>)"
  using assms by (simp add: add_measurement_def add_day_def  Let_def)

lemma add_measurement_empty:
  assumes "days h = Some []"
  shows "add_measurement now h (PNum x) ts = (Some IndexError, h)"
  using assms by (simp add: add_measurement_def Let_def)

lemma add_measurement_same:
  assumes "days h = Some ds" "ds \<noteq> []" "date (case ts of None \<Rightarrow> now | Some t \<Rightarrow> t) = last ds"
    "map_of (max_dict h) (last ds) = Some m"
  shows "add_measurement now h (PNum x) ts =
         (None, h\<lparr>max_dict := AList.update (last ds) (max x m) (max_dict h),
                   max_attr := Some (Max (snd ` set (AList.update (last ds) (max x m) (max_dict h))))\<rparr>)"
  using assms by (simp add: add_measurement_def Let_def max_values_Max)

lemma add_measurement_old:
  assumes "days h = Some ds" "ds \<noteq> []" "date (case ts of None \<Rightarrow> now | Some t \<Rightarrow> t) < last ds"
    "max_dict h \<noteq> []"
  shows "add_measurement now h (PNum x) ts =
         (None, h\<lparr>max_attr := Some (Max (snd ` set (max_dict h)))\<rparr>)"
  using assms by (simp add: add_measurement_def Let_def max_values_Max)

lemma add_measurement_new_room:
  assumes "days h = Some ds" "ds \<noteq> []" "last ds < date (case ts of None \<Rightarrow> now | Some t \<Rightarrow> t)"
    "int (length ds) \<noteq> max_length h"
  shows "add_measurement now h (PNum x) ts =
         (let day = date (case ts of None \<Rightarrow> now | Some t \<Rightarrow> t);
              d = AList.update day x (max_dict h)
          in (None, h\<lparr>days := Some (ds @ [day]), max_dict := d,
                       max_attr := Some (Max (snd ` set d))\<rparr>))"
  using assms by (simp add: add_measurement_def add_day_def append_day_def Let_def max_values_Max)

lemma add_measurement_new_full:
  assumes "days h = Some ds" "ds \<noteq> []" "last ds < date (case ts of None \<Rightarrow> now | Some t \<Rightarrow> t)"
    "int (length ds) = max_length h" "map_of (max_dict h) (hd ds) \<noteq> None"
  shows "add_measurement now h (PNum x) ts =
         (let day = date (case ts of None \<Rightarrow> now | Some t \<Rightarrow> t);
              d = AList.update day x (AList.delete (hd ds) (max_dict h))
          in (None, h\<lparr>days := Some (tl ds @ [day]), max_dict := d,
                       max_attr := Some (Max (snd ` set d))\<rparr>))"
  using assms by (cases ds) (auto simp add: add_measurement_def add_day_def append_day_def Let_def max_values_Max)

lemma add_measurement_not_number:
  "\<not> isinstance_number v \<Longrightarrow> add_measurement now h v ts = (None, h)"
  by (cases v) (simp_all add: add_measurement_def Let_def)

lemma hist_inv_numeric:
  assumes inv: "hist_inv h"
  shows "hist_inv (snd (add_measurement now h (PNum x) ts))"
proof (cases "days h")
  case None
  with inv have d: "max_dict h = []" by (simp add: hist_inv_def)
  show ?thesis
  proof (cases "max_length h = 0")
    case True
    with None d inv show ?thesis
      by (simp add: add_measurement_first_zero hist_inv_def)
  next
    case False
    with None d inv show ?thesis
      by (simp add: add_measurement_first hist_inv_def max_values_def)
  qed
next
  case (Some ds)
  with inv have keys: "map fst (max_dict h) = ds" and srt: "sorted_wrt (<) ds"
    and mx: "max_attr h = (case max_values (max_dict h) of Inl _ \<Rightarrow> None | Inr m \<Rightarrow> Some m)"
    and len: "0 < max_length h \<longrightarrow> int (length ds) \<le> max_length h"
    by (auto simp: hist_inv_def)
  from keys have lenk: "length (max_dict h) = length ds" by (metis length_map)
  let ?day = "date (case ts of None \<Rightarrow> now | Some t \<Rightarrow> t)"
  show ?thesis
  proof (cases "ds = []")
    case True
    with Some inv show ?thesis by (simp add: add_measurement_empty)
  next
    case False
    with keys have ne: "max_dict h \<noteq> []" by auto
    from False have lastin: "last ds \<in> set ds" by simp
    consider (same) "?day = last ds" | (old) "?day < last ds" | (new) "last ds < ?day"
      by linarith
    then show ?thesis
    proof cases
      case same
      from lastin keys obtain m where m: "map_of (max_dict h) (last ds) = Some m"
        by (metis map_of_eq_None_iff not_None_eq set_map)
      from lastin keys have k: "map fst (AList.update (last ds) (max x m) (max_dict h)) = ds"
        by (simp add: update_keys)
      have l: "length (AList.update (last ds) (max x m) (max_dict h)) = length ds"
        using k by (metis length_map)
      from Some False same m k srt len l show ?thesis
        by (simp add: add_measurement_same hist_inv_def max_values_Max)
    next
      case old
      from Some False old ne keys srt len mx lenk show ?thesis
        by (simp add: add_measurement_old hist_inv_def max_values_Max)
    next
      case new
      from srt False new have fresh: "?day \<notin> set ds"
        using sorted_wrt_last by fastforce
      from srt False new have above: "\<forall>y\<in>set ds. y < ?day"
        using sorted_wrt_last by fastforce
      show ?thesis
      proof (cases "int (length ds) = max_length h")
        case False
        from fresh keys have k: "map fst (AList.update ?day x (max_dict h)) = ds @ [?day]"
          by (simp add: update_keys)
        have l: "length (AList.update ?day x (max_dict h)) = Suc (length ds)"
          using k by (metis length_append_singleton length_map)
        from False len have len': "0 < max_length h \<longrightarrow> 1 + int (length ds) \<le> max_length h"
          by linarith
        from Some \<open>ds \<noteq> []\<close> new False k srt above len' l show ?thesis
          by (simp add: add_measurement_new_room hist_inv_def max_values_Max Let_def
              sorted_wrt_append)
      next
        case True
        obtain o' rest where ds: "ds = o' # rest" using \<open>ds \<noteq> []\<close> by (cases ds) auto
        with srt have o_notin: "o' \<notin> set rest" by auto
        from ds keys have "map_of (max_dict h) (hd ds) \<noteq> None"
          by (metis list.sel(1) list.set_intros(1) map_of_eq_None_iff set_map)
        moreover from keys ds o_notin have k1: "map fst (AList.delete o' (max_dict h)) = rest"
          by (simp add: delete_keys)
        moreover from k1 fresh ds
        have k2: "map fst (AList.update ?day x (AList.delete o' (max_dict h))) = rest @ [?day]"
          by (simp add: update_keys)
        moreover have l: "length (AList.update ?day x (AList.delete o' (max_dict h))) = length ds"
          using k2 ds by (metis length_Cons length_append_singleton length_map)
        ultimately show ?thesis
          using Some \<open>ds \<noteq> []\<close> new True ds srt above len
          by (simp add: add_measurement_new_full hist_inv_def max_values_Max Let_def
              sorted_wrt_append)
      qed
    qed
  qed
qed

lemma hist_inv_add_measurement:
  "hist_inv h \<Longrightarrow> hist_inv (snd (add_measurement now h v ts))"
  by (cases v) (simp_all add: hist_inv_numeric add_measurement_not_number)

lemma max_length_add_measurement:
  "max_length (snd (add_measurement now h v ts)) = max_length h"
  by (auto simp: add_measurement_def add_day_def append_day_def Let_def
      split: pyval.splits option.splits list.splits sum.splits prod.splits if_splits)

lemma feed_snoc: "feed h (cs @ [(now, v, ts)]) = snd (add_measurement now (feed h cs) v ts)"
  by (simp add: feed_def)

lemma hist_inv_feed: "hist_inv h \<Longrightarrow> hist_inv (feed h cs)"
proof (induction cs rule: rev_induct)
  case Nil
  then show ?case by (simp add: feed_def)
next
  case (snoc c cs)
  then show ?case by (cases c) (simp add: feed_snoc hist_inv_add_measurement)
qed

lemma max_length_feed: "max_length (feed h cs) = max_length h"
proof (induction cs rule: rev_induct)
  case Nil
  then show ?case by (simp add: feed_def)
next
  case (snoc c cs)
  then show ?case by (cases c) (simp add: feed_snoc max_length_add_measurement)
qed

subsection \<open>The retained days as a function of the samples fed\<close>

lemma distinct_days_set: "distinct_days xs = sorted_list_of_set (set (sample_days xs))"
  unfolding distinct_days_def by (rule sorted_list_of_set_sort_remdups [symmetric])

lemma set_distinct_days: "set (distinct_days xs) = set (sample_days xs)"
  by (simp add: distinct_days_def)

lemma sorted_distinct_days: "sorted_wrt (<) (distinct_days xs)"
  by (simp add: distinct_days_set strict_sorted_iff[symmetric])

lemma distinct_days_same:
  "date t \<in> set (sample_days xs) \<Longrightarrow> distinct_days (xs @ [(x, t)]) = distinct_days xs"
  by (simp add: distinct_days_set insert_absorb)

lemma distinct_days_new:
  assumes "\<forall>y\<in>set (sample_days xs). y < date t"
  shows "distinct_days (xs @ [(x, t)]) = distinct_days xs @ [date t]"
proof (rule sorted_distinct_set_unique)
  show "sorted (distinct_days (xs @ [(x, t)]))" by (simp add: distinct_days_def)
  show "distinct (distinct_days (xs @ [(x, t)]))" by (simp add: distinct_days_def)
  show "sorted (distinct_days xs @ [date t])"
    using assms by (auto simp: sorted_append distinct_days_def intro: less_imp_le)
  show "distinct (distinct_days xs @ [date t])"
    using assms by (auto simp: distinct_days_def)
  show "set (distinct_days (xs @ [(x, t)])) = set (distinct_days xs @ [date t])"
    by (auto simp: distinct_days_def)
qed

lemma recent_days_subset: "set (recent_days n xs) \<subseteq> set (sample_days xs)"
  using set_drop_subset [of "length (distinct_days xs) - nat n" "distinct_days xs"]
  by (simp add: recent_days_def Let_def set_distinct_days)

lemma sorted_recent_days: "sorted_wrt (<) (recent_days n xs)"
  by (simp add: recent_days_def Let_def sorted_wrt_drop sorted_distinct_days)

lemma recent_days_nonempty:
  assumes "0 < n" "xs \<noteq> []"
  shows "recent_days n xs \<noteq> []" "last (recent_days n xs) = last (distinct_days xs)"
proof -
  from assms(2) have "distinct_days xs \<noteq> []"
    using set_distinct_days [of xs] by (cases xs) auto
  with assms(1) have "length (distinct_days xs) - nat n < length (distinct_days xs)"
    by (simp add: Suc_le_eq diff_less)
  then show "recent_days n xs \<noteq> []" "last (recent_days n xs) = last (distinct_days xs)"
    by (simp_all add: recent_days_def Let_def)
qed

lemma recent_days_same:
  "date t \<in> set (sample_days xs) \<Longrightarrow> recent_days n (xs @ [(x, t)]) = recent_days n xs"
  by (simp add: recent_days_def distinct_days_same)

lemma recent_days_new:
  assumes "\<forall>y\<in>set (sample_days xs). y < date t" "0 < n"
  shows "recent_days n (xs @ [(x, t)]) =
         (if int (length (recent_days n xs)) = n then tl (recent_days n xs) else recent_days n xs)
         @ [date t]"
proof -
  let ?D = "distinct_days xs"
  show ?thesis
  proof (cases "nat n \<le> length ?D")
    case True
    then have "Suc (length ?D) - nat n = Suc (length ?D - nat n)" by simp
    with True assms(2) show ?thesis
      by (simp add: recent_days_def distinct_days_new [OF assms(1)] Let_def drop_Suc tl_drop)
  next
    case False
    with assms(2) show ?thesis
      by (simp add: recent_days_def distinct_days_new [OF assms(1)] Let_def)
  qed
qed

lemma day_max_other:
  "d \<noteq> date t \<Longrightarrow> day_max (xs @ [(x, t)]) d = day_max xs d"
  by (simp add: day_max_def)

lemma day_max_same:
  assumes "date t \<in> set (sample_days xs)"
  shows "day_max (xs @ [(x, t)]) (date t) = max x (day_max xs (date t))"
proof -
  let ?A = "set (map fst (filter (\<lambda>(x, t'). date t' = date t) xs))"
  from assms obtain x' t' where "(x', t') \<in> set xs" "date t' = date t" by auto
  then have "x' \<in> ?A" by force
  then have "?A \<noteq> {}" by (metis empty_iff)
  then have "Max (insert x ?A) = max x (Max ?A)" by simp
  then show ?thesis by (simp add: day_max_def)
qed

lemma day_max_new:
  assumes "date t \<notin> set (sample_days xs)"
  shows "day_max (xs @ [(x, t)]) (date t) = x"
proof -
  from assms have "\<forall>p\<in>set xs. date (snd p) \<noteq> date t" by force
  then have "filter (\<lambda>(x, t'). date t' = date t) xs = []"
    by (auto simp: filter_empty_conv)
  then show ?thesis by (simp add: day_max_def)
qed

lemma update_map_old:
  "k \<in> set R \<Longrightarrow> distinct R \<Longrightarrow> AList.update k v (map (\<lambda>d. (d, f d)) R) = map (\<lambda>d. (d, (f(k := v)) d)) R"
proof (induction R)
  case Nil
  then show ?case by simp
next
  case (Cons a R)
  show ?case
  proof (cases "a = k")
    case True
    show ?thesis
    proof -
      from Cons.prems True have "k \<notin> set R" by simp
      then have "map (\<lambda>d. (d, (f(k := v)) d)) R = map (\<lambda>d. (d, f d)) R" by (auto)
      with \<open>a = k\<close> show ?thesis by simp
    qed
  next
    case False
    with Cons show ?thesis by simp
  qed
qed

lemma update_map_new:
  "k \<notin> set R \<Longrightarrow> AList.update k v (map (\<lambda>d. (d, f d)) R) = map (\<lambda>d. (d, f d)) R @ [(k, v)]"
  by (induction R) auto

lemma delete_map_hd:
  "k \<notin> set R \<Longrightarrow> AList.delete k (map (\<lambda>d. (d, f d)) (k # R)) = map (\<lambda>d. (d, f d)) R"
  by (induction R) auto

lemma numeric_calls_snoc:
  "numeric_calls (xs @ [(x, t)]) = numeric_calls xs @ [(t, PNum x, Some t)]"
  by (simp add: numeric_calls_def)

lemma last_distinct_days:
  assumes "xs \<noteq> []"
  shows "last (distinct_days xs) \<in> set (sample_days xs)"
    and "\<forall>y\<in>set (sample_days xs). y \<le> last (distinct_days xs)"
proof -
  from assms have ne: "distinct_days xs \<noteq> []"
    using set_distinct_days [of xs] by (cases xs) auto
  then have "last (distinct_days xs) \<in> set (distinct_days xs)" by simp
  then show "last (distinct_days xs) \<in> set (sample_days xs)"
    by (simp only: set_distinct_days)
  show "\<forall>y\<in>set (sample_days xs). y \<le> last (distinct_days xs)"
    using sorted_wrt_last [OF sorted_distinct_days ne] set_distinct_days by blast
qed

lemma map_of_map_self: "k \<in> set R \<Longrightarrow> map_of (map (\<lambda>d. (d, f d)) R) k = Some (f k)"
  by (induction R) auto

lemma feed_numeric_state:
  assumes "0 < n" "sorted (sample_days xs)" "xs \<noteq> []"
  shows "days (feed (DailyHistory n) (numeric_calls xs)) = Some (recent_days n xs) \<and>
         max_dict (feed (DailyHistory n) (numeric_calls xs)) =
           map (\<lambda>d. (d, day_max xs d)) (recent_days n xs)"
  using assms(2,3)
proof (induction xs rule: rev_induct)
  case Nil
  then show ?case by simp
next
  case (snoc p xs)
  obtain x t where p: "p = (x, t)" by (cases p)
  let ?S = "feed (DailyHistory n) (numeric_calls xs)"
  let ?xs' = "xs @ [(x, t)]"
  have step: "feed (DailyHistory n) (numeric_calls ?xs') =
              snd (add_measurement t ?S (PNum x) (Some t))"
    by (simp add: numeric_calls_snoc feed_snoc)
  from snoc.prems p have srt: "sorted (sample_days xs)"
    and le: "\<forall>y\<in>set (sample_days xs). y \<le> date t"
    by (auto simp: sorted_append)
  have ml: "max_length ?S = n" by (simp add: max_length_feed DailyHistory_def)
  show ?case
  proof (cases "xs = []")
    case True
    then have S: "?S = DailyHistory n" by (simp add: numeric_calls_def feed_def)
    have "days (DailyHistory n) = None" "max_dict (DailyHistory n) = []"
      "max_length (DailyHistory n) \<noteq> 0"
      using assms(1) by (simp_all add: DailyHistory_def)
    from add_measurement_first [OF this, of t x "Some t"] assms(1) True
    show ?thesis
      unfolding p step S
      by (simp add: recent_days_def distinct_days_def day_max_def)
  next
    case False
    let ?R = "recent_days n xs"
    let ?f = "day_max xs"
    from snoc.IH [OF srt False] have dS: "days ?S = Some ?R"
      and mS: "max_dict ?S = map (\<lambda>d. (d, ?f d)) ?R" by simp_all
    from recent_days_nonempty [OF assms(1) False]
    have Rne: "?R \<noteq> []" and lastR: "last ?R = last (distinct_days xs)" by simp_all
    have distR: "distinct ?R" using sorted_recent_days [of n xs]
      by (simp add: strict_sorted_iff)
    have lastin: "last ?R \<in> set ?R" using Rne by simp
    show ?thesis
    proof (cases "date t \<in> set (sample_days xs)")
      case True
      from last_distinct_days(2) [OF False] True have "date t \<le> last (distinct_days xs)"
        by blast
      moreover from last_distinct_days(1) [OF False] le have "last (distinct_days xs) \<le> date t"
        by blast
      ultimately have eq: "date t = last ?R"
        by (simp only: lastR order_antisym)
      have m: "map_of (max_dict ?S) (last ?R) = Some (?f (last ?R))"
        unfolding mS using lastin by (rule map_of_map_self)
      have "date (case Some t of None \<Rightarrow> t | Some t' \<Rightarrow> t') = last ?R" using eq by simp
      from add_measurement_same [OF dS Rne this m, of x]
      have res: "days (snd (add_measurement t ?S (PNum x) (Some t))) = Some ?R"
        "max_dict (snd (add_measurement t ?S (PNum x) (Some t))) =
           AList.update (last ?R) (max x (?f (last ?R))) (max_dict ?S)"
        by (simp_all add: dS)
      have "AList.update (last ?R) (max x (?f (last ?R))) (map (\<lambda>d. (d, ?f d)) ?R) =
            map (\<lambda>d. (d, (?f(last ?R := max x (?f (last ?R)))) d)) ?R"
        using lastin distR by (rule update_map_old)
      also have "\<dots> = map (\<lambda>d. (d, day_max ?xs' d)) ?R"
        using day_max_same [OF True, of x] day_max_other [of _ t xs x]
        by (auto simp: eq [symmetric])
      finally show ?thesis
        unfolding p step res mS by (simp add: recent_days_same [OF True])
    next
      case new: False
      with le have above: "\<forall>y\<in>set (sample_days xs). y < date t"
        by (metis le_neq_implies_less)
      from above last_distinct_days(1) [OF False] have "last (distinct_days xs) < date t"
        by blast
      then have lt: "last ?R < date t"
        by (simp only: lastR)
      have notinR: "date t \<notin> set ?R" using new recent_days_subset [of n xs] by blast
      have lt': "last ?R < date (case Some t of None \<Rightarrow> t | Some t' \<Rightarrow> t')" using lt by simp
      have agree: "day_max ?xs' d = day_max xs d" if "d \<in> set ?R" for d
        using that notinR by (intro day_max_other) blast
      have fresh: "day_max ?xs' (date t) = x" using new by (rule day_max_new)
      show ?thesis
      proof (cases "int (length ?R) = n")
        case True
        obtain k R' where R: "?R = k # R'" using Rne by (cases ?R) auto
        with distR have knotin: "k \<notin> set R'" by simp
        have hd: "map_of (max_dict ?S) (hd ?R) \<noteq> None"
          unfolding mS using R by (simp add: map_of_map_self)
        have len: "int (length ?R) = max_length ?S" using True ml by simp
        from add_measurement_new_full [OF dS Rne lt' len hd, of x]
        have res: "days (snd (add_measurement t ?S (PNum x) (Some t))) = Some (tl ?R @ [date t])"
          "max_dict (snd (add_measurement t ?S (PNum x) (Some t))) =
             AList.update (date t) x (AList.delete (hd ?R) (max_dict ?S))"
          by (simp_all add: Let_def)
        have "AList.delete (hd ?R) (map (\<lambda>d. (d, ?f d)) ?R) = map (\<lambda>d. (d, ?f d)) R'"
          unfolding R list.sel using knotin by (rule delete_map_hd)
        moreover have "date t \<notin> set R'" using notinR R by simp
        ultimately have "AList.update (date t) x (AList.delete (hd ?R) (map (\<lambda>d. (d, ?f d)) ?R))
            = map (\<lambda>d. (d, ?f d)) R' @ [(date t, x)]"
          by (simp add: update_map_new)
        also have "\<dots> = map (\<lambda>d. (d, day_max ?xs' d)) (R' @ [date t])"
          using agree R by (simp add: fresh)
        finally show ?thesis
          unfolding p step res mS
          using True R by (simp add: recent_days_new [OF above assms(1)])
      next
        case nf: False
        have len: "int (length ?R) \<noteq> max_length ?S" using nf ml by simp
        from add_measurement_new_room [OF dS Rne lt' len, of x]
        have res: "days (snd (add_measurement t ?S (PNum x) (Some t))) = Some (?R @ [date t])"
          "max_dict (snd (add_measurement t ?S (PNum x) (Some t))) =
             AList.update (date t) x (max_dict ?S)"
          by (simp_all add: Let_def)
        have "AList.update (date t) x (map (\<lambda>d. (d, ?f d)) ?R)
            = map (\<lambda>d. (d, ?f d)) ?R @ [(date t, x)]"
          using notinR by (simp add: update_map_new)
        also have "\<dots> = map (\<lambda>d. (d, day_max ?xs' d)) (?R @ [date t])"
          using agree by (simp add: fresh)
        finally show ?thesis
          unfolding p step res mS
          using nf by (simp add: recent_days_new [OF above assms(1)])
      qed
    qed
  qed
qed

lemma Max_day_max:
  assumes "R \<noteq> []" "set R \<subseteq> set (sample_days xs)"
  shows "Max (day_max xs ` set R) =
         Max (set (map fst (filter (\<lambda>(x, t). date t \<in> set R) xs)))"
proof (rule sym, rule Max_eqI)
  let ?V = "set (map fst (filter (\<lambda>(x, t). date t \<in> set R) xs))"
  let ?Vd = "\<lambda>d. set (map fst (filter (\<lambda>(x, t). date t = d) xs))"
  have ne: "?Vd d \<noteq> {}" if "d \<in> set R" for d
  proof -
    from that assms(2) obtain x t where "(x, t) \<in> set xs" "date t = d" by auto
    then have "x \<in> ?Vd d" by force
    then show ?thesis by (metis empty_iff)
  qed
  show "finite ?V" by simp
  show "y \<le> Max (day_max xs ` set R)" if "y \<in> ?V" for y
  proof -
    from that obtain t where yt: "(y, t) \<in> set xs" "date t \<in> set R" by auto
    then have "y \<in> ?Vd (date t)" by force
    then have "y \<le> day_max xs (date t)" by (simp add: day_max_def del: set_map)
    also have "\<dots> \<le> Max (day_max xs ` set R)" using yt(2) by simp
    finally show ?thesis .
  qed
  have "Max (day_max xs ` set R) \<in> day_max xs ` set R"
    using assms(1) by (intro Max_in) auto
  then obtain d where d: "d \<in> set R" "Max (day_max xs ` set R) = day_max xs d" by auto
  have "day_max xs d \<in> ?Vd d" unfolding day_max_def using ne [OF d(1)] by (intro Max_in) auto
  then have "day_max xs d \<in> ?V" using d(1) by auto
  with d(2) show "Max (day_max xs ` set R) \<in> ?V" by simp
qed

lemma feed_numeric_max:
  assumes "0 < n" "sorted (sample_days xs)"
  shows "max_attr (feed (DailyHistory n) (numeric_calls xs)) = recent_max n xs"
proof (cases "xs = []")
  case True
  then show ?thesis
    by (simp add: feed_def numeric_calls_def DailyHistory_def recent_max_def)
next
  case False
  let ?S = "feed (DailyHistory n) (numeric_calls xs)"
  let ?R = "recent_days n xs"
  from feed_numeric_state [OF assms False]
  have mS: "max_dict ?S = map (\<lambda>d. (d, day_max xs d)) ?R" by simp
  have Rne: "?R \<noteq> []" using recent_days_nonempty [OF assms(1) False] by simp
  have "hist_inv ?S" by (simp add: hist_inv_feed hist_inv_DailyHistory)
  then have "max_attr ?S = Some (Max (snd ` set (max_dict ?S)))"
    using Rne mS by (simp add: hist_inv_def max_values_Max)
  also have "snd ` set (max_dict ?S) = day_max xs ` set ?R"
    unfolding mS by force
  also have "Max (day_max xs ` set ?R) =
     Max (set (map fst (filter (\<lambda>(x, t). date t \<in> set ?R) xs)))"
    using Rne recent_days_subset by (rule Max_day_max)
  finally have 1: "max_attr ?S =
     Some (Max (set (map fst (filter (\<lambda>(x, t). date t \<in> set ?R) xs))))" .
  have "filter (\<lambda>(x, t). date t \<in> set ?R) xs \<noteq> []"
  proof -
    from Rne have "last ?R \<in> set ?R" by simp
    with recent_days_subset [of n xs] obtain x t where "(x, t) \<in> set xs" "date t \<in> set ?R"
      by auto
    then show ?thesis by (force simp: filter_empty_conv)
  qed
  with 1 show ?thesis by (simp add: recent_max_def Let_def)
qed

section \<open>The claims about DailyHistory\<close>

text \<open>
  Claim C1, as amended. For a history constructed with \<open>max_length = n > 0\<close> and numeric
  samples fed in non-decreasing day order, after each call (after every prefix of the
  sample list) \<open>max\<close> is the greatest value fed on the \<open>n\<close> most recent distinct days
  that were fed, and \<open>None\<close> before the first sample.
\<close>

theorem C1_max_recent_days:
  assumes "0 < n" and "sorted (map (\<lambda>(x, t). date t) xs)"
  shows "\<forall>k\<le>length xs.
           max_attr (feed (DailyHistory n) (numeric_calls (take k xs))) = recent_max n (take k xs)"
proof (intro allI impI)
  fix k
  have "sorted (take k (map (\<lambda>(x, t). date t) xs))"
    using assms(2) by (rule sorted_wrt_take)
  then have "sorted (map (\<lambda>(x, t). date t) (take k xs))" by (simp only: take_map)
  with assms(1)
  show "max_attr (feed (DailyHistory n) (numeric_calls (take k xs))) = recent_max n (take k xs)"
    by (rule feed_numeric_max)
qed

text \<open>
  The scenario of the specification: \<open>max_length = 3\<close>, samples 10 and 15 on day 1, 5 on
  day 2, 20 on day 3 and 3 on day 4 give the maximum 20; after the third sample it is 15.
\<close>

theorem C1_max_recent_days_witness:
  "(0::int) < 3 \<and>
   sorted (map (\<lambda>(x, t). date t)
     [(10, (1, 0)), (15, (1, 5)), (5, (2, 0)), (20, (3, 0)), (3::rat, (4::nat, 0::nat))]) \<and>
   max_attr (feed (DailyHistory 3)
     (numeric_calls [(10, (1, 0)), (15, (1, 5)), (5, (2, 0)), (20, (3, 0)), (3, (4, 0))])) = Some 20 \<and>
   max_attr (feed (DailyHistory 3)
     (numeric_calls [(10, (1, 0)), (15, (1, 5)), (5, (2, 0))])) = Some 15"
proof -
  let ?xs = "[(10, (1, 0)), (15, (1, 5)), (5, (2, 0)), (20, (3, 0)), (3::rat, (4::nat, 0::nat))]"
  have n: "(0::int) < 3" by simp
  have s: "sorted (map (\<lambda>(x, t). date t) ?xs)" by (simp add: date_def)
  have r5: "recent_max 3 (take 5 ?xs) = Some 20"
    by (simp add: recent_max_def recent_days_def distinct_days_def date_def)
  have r3: "recent_max 3 (take 3 ?xs) = Some 15"
    by (simp add: recent_max_def recent_days_def distinct_days_def date_def)
  from C1_max_recent_days [OF n s, THEN spec, of 5] r5 have
    m5: "max_attr (feed (DailyHistory 3) (numeric_calls (take 5 ?xs))) = Some 20"
    by simp
  from C1_max_recent_days [OF n s, THEN spec, of 3] r3 have
    m3: "max_attr (feed (DailyHistory 3) (numeric_calls (take 3 ?xs))) = Some 15"
    by simp
  from n s m5 m3 show ?thesis by simp
qed

text \<open>
  Claim C1 as stated, with the window taken on the calendar, fails when the days fed have
  gaps: with \<open>max_length = 2\<close>, 10 on day 1 and 5 on day 5, the history keeps both days
  and \<open>max\<close> is 10, while the greatest value within the two most recent days of day 5
  (days 4 and 5) is 5.
\<close>

theorem C1_calendar_window_counterexample:
  "max_attr (feed (DailyHistory 2) (numeric_calls [(10, (1, 0)), (5, (5, 0))])) = Some 10 \<and>
   calendar_window_max 2 [(10, (1, 0)), (5, (5, 0))] = Some 5"
  by (simp add: feed_def numeric_calls_def add_measurement_def add_day_def append_day_def
      DailyHistory_def date_def max_values_def calendar_window_max_def)

text \<open>
  Claim C3. After any sequence of calls on a history constructed with \<open>max_length = n > 0\<close>,
  the retained days are strictly increasing, without duplicates, at most \<open>n\<close>, and they
  are the keys of the dict. When \<open>n\<close> days are retained, a call with a number for a day
  after the last one returns normally, drops exactly the first (oldest) day and its
  aggregate, and appends the new day with the value as its aggregate.
\<close>

theorem C3_retained_days:
  assumes "0 < n"
  shows "(case days (feed (DailyHistory n) cs) of
            None \<Rightarrow> True
          | Some ds \<Rightarrow>
              sorted_wrt (<) ds \<and> distinct ds \<and> int (length ds) \<le> n \<and>
              map fst (max_dict (feed (DailyHistory n) cs)) = ds) \<and>
         (\<forall>ds now x ts.
            days (feed (DailyHistory n) cs) = Some ds \<and> int (length ds) = n \<and>
            last ds < date (case ts of None \<Rightarrow> now | Some t \<Rightarrow> t) \<longrightarrow>
            (let day = date (case ts of None \<Rightarrow> now | Some t \<Rightarrow> t);
                 d = AList.update day x (AList.delete (hd ds) (max_dict (feed (DailyHistory n) cs)))
             in add_measurement now (feed (DailyHistory n) cs) (PNum x) ts =
                  (None, (feed (DailyHistory n) cs)
                     \<lparr>days := Some (tl ds @ [day]), max_dict := d,
                      max_attr := Some (Max (snd ` set d))\<rparr>) \<and>
                map fst d = tl ds @ [day] \<and>
                map_of d = (map_of (max_dict (feed (DailyHistory n) cs)))(hd ds := None, day \<mapsto> x)))"
proof -
  let ?h = "feed (DailyHistory n) cs"
  have inv: "hist_inv ?h" by (simp add: hist_inv_feed hist_inv_DailyHistory)
  have ml: "max_length ?h = n" by (simp add: max_length_feed DailyHistory_def)
  have keys: "map fst (max_dict ?h) = ds" if "days ?h = Some ds" for ds
    using inv that by (simp add: hist_inv_def)
  have first: "case days ?h of
            None \<Rightarrow> True
          | Some ds \<Rightarrow>
              sorted_wrt (<) ds \<and> distinct ds \<and> int (length ds) \<le> n \<and>
              map fst (max_dict ?h) = ds"
  proof (cases "days ?h")
    case None
    then show ?thesis by simp
  next
    case (Some ds)
    from keys [OF Some] have l: "length (max_dict ?h) = length ds" by (metis length_map)
    from inv Some assms ml l show ?thesis
      by (auto simp: hist_inv_def strict_sorted_iff)
  qed
  have second: "let day = date (case ts of None \<Rightarrow> now | Some t \<Rightarrow> t);
                 d = AList.update day x (AList.delete (hd ds) (max_dict ?h))
             in add_measurement now ?h (PNum x) ts =
                  (None, ?h\<lparr>days := Some (tl ds @ [day]), max_dict := d,
                      max_attr := Some (Max (snd ` set d))\<rparr>) \<and>
                map fst d = tl ds @ [day] \<and>
                map_of d = (map_of (max_dict ?h))(hd ds := None, day \<mapsto> x)"
    if h: "days ?h = Some ds" "int (length ds) = n"
      "last ds < date (case ts of None \<Rightarrow> now | Some t \<Rightarrow> t)" for ds now x ts
  proof -
    let ?day = "date (case ts of None \<Rightarrow> now | Some t \<Rightarrow> t)"
    from h(2) assms have ne: "ds \<noteq> []" by auto
    then obtain k rest where ds: "ds = k # rest" by (cases ds) auto
    from inv h(1) have srt: "sorted_wrt (<) ds" by (auto simp: hist_inv_def)
    with ds have knotin: "k \<notin> set rest" by auto
    from srt ne h(3) have fresh: "?day \<notin> set ds" using sorted_wrt_last by fastforce
    have hdin: "map_of (max_dict ?h) (hd ds) \<noteq> None"
      using keys [OF h(1)] ds by (metis list.sel(1) list.set_intros(1) map_of_eq_None_iff set_map)
    have len: "int (length ds) = max_length ?h" using h(2) ml by simp
    have k1: "map fst (AList.delete k (max_dict ?h)) = rest"
      using keys [OF h(1)] ds knotin by (simp add: delete_keys)
    have k2: "map fst (AList.update ?day x (AList.delete k (max_dict ?h))) = rest @ [?day]"
      using k1 fresh ds by (simp add: update_keys)
    from add_measurement_new_full [OF h(1) ne h(3) len hdin, of x] k2 ds
    show ?thesis by (simp add: Let_def update_conv' delete_conv')
  qed
  from first second show ?thesis by blast
qed

text \<open>
  With \<open>max_length = 3\<close> and days 1, 2, 3 retained, a sample for day 4 evicts day 1 and its
  aggregate 15.
\<close>

theorem C3_retained_days_witness:
  "(0::int) < 3 \<and>
   days (feed (DailyHistory 3) (numeric_calls [(10, (1, 0)), (15, (1, 5)), (5, (2, 0)), (20, (3, 0))]))
     = Some [1, 2, 3] \<and>
   max_dict (feed (DailyHistory 3) (numeric_calls [(10, (1, 0)), (15, (1, 5)), (5, (2, 0)), (20, (3, 0))]))
     = [(1, 15), (2, 5), (3, 20)] \<and>
   int (length [1, 2, 3 :: nat]) = 3 \<and> last [1, 2, 3] < date (4, 0) \<and>
   days (snd (add_measurement (4, 0)
      (feed (DailyHistory 3) (numeric_calls [(10, (1, 0)), (15, (1, 5)), (5, (2, 0)), (20, (3, 0))]))
      (PNum 3) (Some (4, 0)))) = Some [2, 3, 4] \<and>
   max_dict (snd (add_measurement (4, 0)
      (feed (DailyHistory 3) (numeric_calls [(10, (1, 0)), (15, (1, 5)), (5, (2, 0)), (20, (3, 0))]))
      (PNum 3) (Some (4, 0)))) = [(2, 5), (3, 20), (4, 3)]"
proof -
  let ?cs = "numeric_calls [(10, (1, 0)), (15, (1, 5)), (5, (2, 0)), (20, (3::nat, 0::nat))]"
  have n: "(0::int) < 3" by simp
  have h: "feed (DailyHistory 3) ?cs =
      \<lparr>max_length = 3, days = Some [1, 2, 3], max_dict = [(1, 15), (2, 5), (3, 20)],
       max_attr = Some 20\<rparr>"
    by (simp add: feed_def numeric_calls_def add_measurement_def add_day_def append_day_def
        DailyHistory_def date_def max_values_def)
  have pre: "days (feed (DailyHistory 3) ?cs) = Some [1, 2, 3] \<and> int (length [1, 2, 3 :: nat]) = 3 \<and>
     last [1, 2, 3] < date (case Some (4, 0) of None \<Rightarrow> (4, 0) | Some t \<Rightarrow> t)"
    unfolding h by (simp add: date_def)
  from C3_retained_days [OF n, of ?cs] pre
  have "let day = date (case Some (4, 0) of None \<Rightarrow> (4, 0) | Some t \<Rightarrow> t);
            d = AList.update day 3 (AList.delete (hd [1, 2, 3]) (max_dict (feed (DailyHistory 3) ?cs)))
        in add_measurement (4, 0) (feed (DailyHistory 3) ?cs) (PNum 3) (Some (4, 0)) =
             (None, (feed (DailyHistory 3) ?cs)
                \<lparr>days := Some (tl [1, 2, 3] @ [day]), max_dict := d,
                 max_attr := Some (Max (snd ` set d))\<rparr>) \<and>
           map fst d = tl [1, 2, 3] @ [day] \<and>
           map_of d = (map_of (max_dict (feed (DailyHistory 3) ?cs)))(hd [1, 2, 3] := None, day \<mapsto> 3)"
    by blast
  then have "add_measurement (4, 0) (feed (DailyHistory 3) ?cs) (PNum 3) (Some (4, 0)) =
     (None, \<lparr>max_length = 3, days = Some [2, 3, 4], max_dict = [(2, 5), (3, 20), (4, 3)],
             max_attr = Some 20\<rparr>)"
    unfolding h by (simp add: date_def Let_def)
  with n show ?thesis unfolding h by (simp add: date_def)
qed

text \<open>
  Claim C5, as amended. A call of \<open>add_measurement\<close> with a value that is not a number
  never raises and leaves the whole history as it was: no day is opened, no aggregate is
  recorded, and \<open>max\<close> keeps its value (\<open>None\<close> until a number arrives).
\<close>

theorem C5_non_numeric_ignored:
  "\<not> isinstance_number v \<Longrightarrow> add_measurement now h v ts = (None, h)"
  by (rule add_measurement_not_number)

text \<open>A string fed to a new history leaves it new.\<close>

theorem C5_non_numeric_ignored_witness:
  "\<not> isinstance_number (PStr ''n/a'') \<and>
   add_measurement (1, 0) (DailyHistory 3) (PStr ''n/a'') (Some (1, 0)) = (None, DailyHistory 3)"
  using C5_non_numeric_ignored [of "PStr ''n/a''" "(1, 0)" "DailyHistory 3" "Some (1, 0)"]
  by simp

text \<open>
  Claim C5 as stated fails: a non-numeric value for a new day does not open the day. Fed
  to a new history for day 1, the deque stays \<open>None\<close> and is not \<open>[1]\<close>.
\<close>

theorem C5_day_not_opened_counterexample:
  "days (snd (add_measurement (1, 0) (DailyHistory 3) (PStr ''n/a'') (Some (1, 0)))) = None \<and>
   days (snd (add_measurement (1, 0) (DailyHistory 3) (PStr ''n/a'') (Some (1, 0)))) \<noteq> Some [1]"
  by (simp add: add_measurement_def DailyHistory_def)

text \<open>
  Claim C6. In every state that a history reaches by a sequence of calls and that has a
  retained day, a call whose day is strictly before the last retained day returns
  normally and leaves the whole state (days, aggregates and \<open>max\<close>) unchanged, whatever
  the value and whatever \<open>max_length\<close>.
\<close>

theorem C6_old_measurement_dropped:
  assumes "days (feed (DailyHistory n) cs) = Some ds" and "ds \<noteq> []"
    and "date (case ts of None \<Rightarrow> now | Some t \<Rightarrow> t) < last ds"
  shows "add_measurement now (feed (DailyHistory n) cs) v ts = (None, feed (DailyHistory n) cs)"
proof (cases v)
  case (PNum x)
  let ?h = "feed (DailyHistory n) cs"
  have inv: "hist_inv ?h" by (simp add: hist_inv_feed hist_inv_DailyHistory)
  with assms(1,2) have ne: "max_dict ?h \<noteq> []" by (auto simp: hist_inv_def)
  with inv have "max_attr ?h = Some (Max (snd ` set (max_dict ?h)))"
    by (simp add: hist_inv_def max_values_Max)
  then have "?h\<lparr>max_attr := Some (Max (snd ` set (max_dict ?h)))\<rparr> = ?h" by simp
  with add_measurement_old [OF assms ne, of x] PNum show ?thesis by simp
qed (simp_all add: add_measurement_not_number)

text \<open>Days 1 and 2 retained; a sample of 99 for day 1 arrives late and is dropped.\<close>

theorem C6_old_measurement_dropped_witness:
  "days (feed (DailyHistory 3) (numeric_calls [(10, (1, 0)), (5, (2, 0))])) = Some [1, 2] \<and>
   [1, 2 :: nat] \<noteq> [] \<and> date (1, 7) < last [1, 2] \<and>
   add_measurement (9, 0) (feed (DailyHistory 3) (numeric_calls [(10, (1, 0)), (5, (2, 0))]))
     (PNum 99) (Some (1, 7)) =
   (None, \<lparr>max_length = 3, days = Some [1, 2], max_dict = [(1, 10), (2, 5)], max_attr = Some 10\<rparr>)"
proof -
  let ?cs = "numeric_calls [(10, (1, 0)), (5, (2::nat, 0::nat))]"
  have h: "feed (DailyHistory 3) ?cs =
     \<lparr>max_length = 3, days = Some [1, 2], max_dict = [(1, 10), (2, 5)], max_attr = Some 10\<rparr>"
    by (simp add: feed_def numeric_calls_def add_measurement_def add_day_def append_day_def
        DailyHistory_def date_def max_values_def)
  have d: "days (feed (DailyHistory 3) ?cs) = Some [1, 2]" unfolding h by simp
  have ne: "[1, 2 :: nat] \<noteq> []" by simp
  have old: "date (case Some (1, 7) of None \<Rightarrow> (9, 0) | Some t \<Rightarrow> t) < last [1, 2]"
    by (simp add: date_def)
  from C6_old_measurement_dropped [OF d ne old, of "PNum 99"]
  show ?thesis unfolding h by (simp add: date_def)
qed
section \<open>Properties of the plant\<close>

text \<open>The definitions of the constants, and those that evaluate a callback.\<close>

lemmas consts_defs = STATE_OK_def STATE_PROBLEM_def STATE_UNAVAILABLE_def STATE_UNKNOWN_def
  CONF_SENSORS_def ATTR_STATE_def ATTR_UNIT_OF_MEASUREMENT_def CONF_MINIMUM_def CONF_MAXIMUM_def
  TEMP_CELSIUS_def PREFIX_MIN_def PREFIX_MAX_def PROBLEM_NONE_def READING_LIGHT_LUX_def
  READING_TEMP_def READING_ENV_HUMID_def READING_SOIL_MOIST_def READING_SOIL_EC_def
  READING_BATTERY_def

subsection \<open>Threshold checks\<close>

lemma check_min_cases:
  "check_min pf p k s = Inr (Some m) \<Longrightarrow> m = k @ '' low''"
  by (auto simp: check_min_def Let_def split: option.splits sum.splits pyval.splits if_splits)

lemma check_max_cases:
  "check_max pf p k s = Inr (Some m) \<Longrightarrow> m = k @ '' high''"
  by (auto simp: check_max_def Let_def split: option.splits sum.splits pyval.splits if_splits)

lemma check_reading_cases:
  assumes "check_reading pf p k = Inr (Some m)"
  shows "(\<exists>r. map_of (p_readings p) k = Some r \<and> r_state r = PStr STATE_UNAVAILABLE \<and>
              m = k @ '' '' @ STATE_UNAVAILABLE) \<or>
         m = k @ '' low'' \<or> m = k @ '' high''"
  using assms
  by (auto simp: check_reading_def Let_def dest: check_min_cases check_max_cases
      split: option.splits sum.splits if_splits)

lemma check_all_results:
  "check_all pf p ks = Inr results \<Longrightarrow> map (check_reading pf p) ks = map Inr results"
  by (induction ks arbitrary: results) (auto split: sum.splits)






text \<open>
  Claim C7. When the checks of all readings return, with \<open>problems\<close> the results that are
  not \<open>None\<close> in the iteration order of the readings: no problem gives the status "ok" and
  the description "none"; problems that all contain "unavailable" give the status
  "unavailable"; otherwise the status is "problem". In both cases with problems the
  description is the problems joined by a comma and a space.
\<close>

theorem C7_update_state:
  assumes "check_all pf p (map fst (p_readings p)) = Inr results"
    and "problems = map the (filter (\<lambda>x. x \<noteq> None) results)"
  shows "map (check_reading pf p) (map fst (p_readings p)) = map Inr results \<and>
         (problems = [] \<longrightarrow>
            update_state pf p = (None, p\<lparr>p_state := Some STATE_OK, p_problems := PROBLEM_NONE\<rparr>)) \<and>
         (problems \<noteq> [] \<and> (\<forall>s\<in>set problems. contains STATE_UNAVAILABLE s) \<longrightarrow>
            update_state pf p =
              (None, p\<lparr>p_state := Some STATE_UNAVAILABLE, p_problems := join '', '' problems\<rparr>)) \<and>
         (problems \<noteq> [] \<and> \<not> (\<forall>s\<in>set problems. contains STATE_UNAVAILABLE s) \<longrightarrow>
            update_state pf p =
              (None, p\<lparr>p_state := Some STATE_PROBLEM, p_problems := join '', '' problems\<rparr>))"
proof (intro conjI)
  show "map (check_reading pf p) (map fst (p_readings p)) = map Inr results"
    using assms(1) by (rule check_all_results)
qed (use assms in \<open>auto simp: update_state_def Let_def list_all_iff\<close>)


subsection \<open>Association\<close>

lemma p_sensors_update_state: "p_sensors (snd (update_state pf p)) = p_sensors p"
  by (simp add: update_state_def Let_def split: sum.splits)

lemma p_sensors_store_state: "p_sensors (snd (store_state pf now p k ns)) = p_sensors p"
  by (simp add: store_state_def Let_def p_sensors_update_state split: option.splits)

lemma associate_loop_none:
  "find (\<lambda>r. contains r e) ks = None \<Longrightarrow>
   associate_loop p e ks =
     (Inl (HomeAssistantError (''Cannot extract reading from sensor '' @ e)), p)"
  by (induction ks) (auto split: if_splits)

lemma associate_loop_some:
  assumes "find (\<lambda>r. contains r e) ks = Some k" "\<forall>r\<in>set ks. map_of READINGS r \<noteq> None"
  shows "fst (associate_loop p e ks) = Inr k \<and>
         map_of (p_sensors (snd (associate_loop p e ks))) e = Some k"
  using assms
proof (induction ks)
  case Nil
  then show ?case by simp
next
  case (Cons r ks)
  show ?case
  proof (cases "contains r e")
    case True
    with Cons.prems have rk: "r = k" by simp
    from Cons.prems obtain u where u: "map_of READINGS r = Some u" by auto
    show ?thesis
      using True rk u
      by (auto simp: Let_def add_reading_def update_conv' split: option.splits)
  next
    case False
    with Cons show ?thesis by simp
  qed
qed

lemma READINGS_names:
  "map fst READINGS = [READING_LIGHT_LUX, READING_TEMP, READING_ENV_HUMID, READING_SOIL_MOIST,
     READING_SOIL_EC, READING_BATTERY]"
  by (simp add: READINGS_def)

lemma READINGS_lookup: "r \<in> set (map fst READINGS) \<Longrightarrow> map_of READINGS r \<noteq> None"
  by (simp add: map_of_eq_None_iff)

lemma READINGS_nonempty: "r \<in> set (map fst READINGS) \<Longrightarrow> r \<noteq> []"
  by (auto simp: READINGS_def consts_defs)

lemma p_sensors_state_changed:
  "p_sensors (snd (state_changed pf st now p e ns)) = p_sensors (snd (resolve_reading p e))"
  by (auto simp: state_changed_def Let_def p_sensors_store_state
      split: prod.splits sum.splits option.splits)

text \<open>
  Claim C8. For an entity id with no cached association: when some reading name occurs
  in the id, the first such name in the order light_lux, temp, env_humid, soil_moist,
  soil_ec, battery is the reading of the callback, it is cached when the callback ends
  (however it ends), and the next lookup takes it from the cache; when no name occurs,
  the callback raises \<open>HomeAssistantError\<close> and the plant is unchanged.
\<close>

theorem C8_association:
  assumes "map_of (p_sensors p) entity_id = None"
  shows "(\<forall>reading.
            find (\<lambda>r. contains r entity_id)
              [READING_LIGHT_LUX, READING_TEMP, READING_ENV_HUMID, READING_SOIL_MOIST,
               READING_SOIL_EC, READING_BATTERY] = Some reading \<longrightarrow>
            fst (resolve_reading p entity_id) = Inr reading \<and>
            map_of (p_sensors (snd (state_changed pf st now p entity_id ns))) entity_id
              = Some reading \<and>
            resolve_reading (snd (state_changed pf st now p entity_id ns)) entity_id
              = (Inr reading, snd (state_changed pf st now p entity_id ns))) \<and>
         (find (\<lambda>r. contains r entity_id)
            [READING_LIGHT_LUX, READING_TEMP, READING_ENV_HUMID, READING_SOIL_MOIST,
             READING_SOIL_EC, READING_BATTERY] = None \<longrightarrow>
          state_changed pf st now p entity_id ns =
            (Some (HomeAssistantError (''Cannot extract reading from sensor '' @ entity_id)), p))"
proof (intro conjI allI impI)
  fix reading
  assume f: "find (\<lambda>r. contains r entity_id)
              [READING_LIGHT_LUX, READING_TEMP, READING_ENV_HUMID, READING_SOIL_MOIST,
               READING_SOIL_EC, READING_BATTERY] = Some reading"
  then have f': "find (\<lambda>r. contains r entity_id) (map fst READINGS) = Some reading"
    by (simp only: READINGS_names)
  have res: "resolve_reading p entity_id = associate_loop p entity_id (map fst READINGS)"
    using assms by (simp add: resolve_reading_def associate_sensor_def)
  have all: "\<forall>r\<in>set (map fst READINGS). map_of READINGS r \<noteq> None"
    using READINGS_lookup by blast
  from associate_loop_some [OF f' all, of p]
  have a: "fst (resolve_reading p entity_id) = Inr reading"
    and b: "map_of (p_sensors (snd (resolve_reading p entity_id))) entity_id = Some reading"
    by (simp_all add: res)
  show "fst (resolve_reading p entity_id) = Inr reading" by (rule a)
  show c: "map_of (p_sensors (snd (state_changed pf st now p entity_id ns))) entity_id
              = Some reading"
    using b by (simp add: p_sensors_state_changed)
  from f' have "reading \<in> set (map fst READINGS)" by (metis find_Some_iff nth_mem)
  then have "reading \<noteq> []" by (rule READINGS_nonempty)
  with c show "resolve_reading (snd (state_changed pf st now p entity_id ns)) entity_id
              = (Inr reading, snd (state_changed pf st now p entity_id ns))"
    by (simp add: resolve_reading_def)
next
  assume f: "find (\<lambda>r. contains r entity_id)
              [READING_LIGHT_LUX, READING_TEMP, READING_ENV_HUMID, READING_SOIL_MOIST,
               READING_SOIL_EC, READING_BATTERY] = None"
  then have f': "find (\<lambda>r. contains r entity_id) (map fst READINGS) = None"
    by (simp only: READINGS_names)
  have res: "resolve_reading p entity_id = associate_loop p entity_id (map fst READINGS)"
    using assms by (simp add: resolve_reading_def associate_sensor_def)
  show "state_changed pf st now p entity_id ns =
            (Some (HomeAssistantError (''Cannot extract reading from sensor '' @ entity_id)), p)"
    by (simp add: state_changed_def res associate_loop_none [OF f'])
qed

subsection \<open>The invariant of a plant\<close>

lemma set_update_subset: "set (AList.update k v al) \<subseteq> insert (k, v) (set al)"
  by (induction al) auto

lemma set_map_entry:
  "x \<in> set (AList.map_entry k f al) \<Longrightarrow> x \<in> set al \<or> (\<exists>r. (k, r) \<in> set al \<and> x = (k, f r))"
  by (induction al) (auto split: if_splits)

lemma readings_ok_update:
  assumes "readings_ok rs" "k \<in> set (map fst READINGS)"
    "r_state r = PNone \<or> isinstance_number (r_state r)"
  shows "readings_ok (AList.update k r rs)"
  using assms set_update_subset [of k r rs] by (fastforce simp: readings_ok_def)

lemma readings_ok_map_entry:
  assumes "readings_ok rs" "\<And>r. r_state (f r) = r_state r"
  shows "readings_ok (AList.map_entry k f rs)"
  unfolding readings_ok_def
proof (intro ballI, clarify)
  fix k' r' assume "(k', r') \<in> set (AList.map_entry k f rs)"
  then consider "(k', r') \<in> set rs" | r where "(k, r) \<in> set rs" "k' = k" "r' = f r"
    using set_map_entry by fastforce
  then show "k' \<in> set (map fst READINGS) \<and> (r_state r' = PNone \<or> isinstance_number (r_state r'))"
    using assms by cases (auto simp: readings_ok_def)
qed

lemma readings_ok_lookup:
  "readings_ok rs \<Longrightarrow> map_of rs k = Some r \<Longrightarrow>
   k \<in> set (map fst READINGS) \<and> (r_state r = PNone \<or> isinstance_number (r_state r))"
  by (auto simp: readings_ok_def dest: map_of_SomeD)

lemma sensors_ok_update: "sensors_ok ss rs \<Longrightarrow> sensors_ok ss (AList.update k r rs)"
  by (auto simp: sensors_ok_def update_conv')

lemma sensors_ok_map_entry: "sensors_ok ss rs \<Longrightarrow> sensors_ok ss (AList.map_entry k f rs)"
  by (auto simp: sensors_ok_def map_of_map_entry split: option.splits)

lemma sensors_ok_cache:
  assumes "sensors_ok ss rs" "map_of rs k \<noteq> None"
  shows "sensors_ok (AList.update e k ss) rs"
  using assms set_update_subset [of e k ss] by (fastforce simp: sensors_ok_def)

lemma sensors_ok_lookup: "sensors_ok ss rs \<Longrightarrow> map_of ss e = Some k \<Longrightarrow> map_of rs k \<noteq> None"
  by (auto simp: sensors_ok_def dest: map_of_SomeD)

text \<open>Caching a sensor and giving its reading a record.\<close>

lemma plant_inv_cache_add_reading:
  assumes "plant_inv p"
    "add_reading (p\<lparr>p_sensors := AList.update e k (p_sensors p)\<rparr>) k e = Inr p'"
  shows "plant_inv p'" "map_of (p_readings p') k \<noteq> None"
proof -
  from assms(2) obtain u where u: "map_of READINGS k = Some u"
    by (auto simp: add_reading_def split: option.splits)
  then have kin: "k \<in> set (map fst READINGS)" by (metis map_of_eq_None_iff option.distinct(1) set_map)
  let ?r = "\<lparr>r_sensors = [e], r_state = PNone, r_unit_of_measurement = u,
             r_minimum = config_get (p_config p) (PREFIX_MIN @ k),
             r_maximum = config_get (p_config p) (PREFIX_MAX @ k)\<rparr>"
  from assms(2) u have p': "p' = p\<lparr>p_sensors := AList.update e k (p_sensors p),
       p_readings := AList.update k ?r (p_readings p)\<rparr>"
    by (auto simp: add_reading_def)
  have 1: "readings_ok (p_readings p')"
    unfolding p' using assms(1) kin by (simp add: plant_inv_def readings_ok_update)
  show 2: "map_of (p_readings p') k \<noteq> None" unfolding p' by (simp add: update_conv')
  have "sensors_ok (p_sensors p) (p_readings p')"
    unfolding p' using assms(1) by (simp add: plant_inv_def sensors_ok_update)
  then have 3: "sensors_ok (p_sensors p') (p_readings p')"
    using sensors_ok_cache [OF _ 2, of "p_sensors p" e] by (simp add: p')
  from 1 3 assms(1) show "plant_inv p'" by (simp add: plant_inv_def p')
qed

lemma plant_inv_init_sensors:
  "plant_inv p \<Longrightarrow> init_sensors p xs = Inr p' \<Longrightarrow> plant_inv p'"
proof (induction p xs rule: init_sensors.induct)
  case (1 p)
  then show ?case by simp
next
  case (2 p reading entity_id rest)
  from "2.prems"(2) obtain p1 where
    p1: "add_reading (p\<lparr>p_sensors := AList.update entity_id reading (p_sensors p)\<rparr>)
           reading entity_id = Inr p1"
    and rest: "init_sensors p1 rest = Inr p'"
    by (auto split: sum.splits)
  from plant_inv_cache_add_reading(1) [OF "2.prems"(1) p1] have "plant_inv p1" .
  with "2.IH" p1 rest show ?case by simp
qed

lemma plant_inv_Plant: "Plant c = Inr p \<Longrightarrow> plant_inv p"
proof -
  assume a: "Plant c = Inr p"
  have "plant_inv \<lparr>p_config = c, p_sensors = [], p_readings = [], p_state = None,
        p_problems = PROBLEM_NONE, p_brightness_history = DailyHistory (c_check_days c)\<rparr>"
    by (simp add: plant_inv_def readings_ok_def sensors_ok_def)
  with a show ?thesis unfolding Plant_def by (rule plant_inv_init_sensors [rotated])
qed

lemma plant_inv_associate_loop:
  assumes "plant_inv p" "\<forall>k\<in>set ks. map_of READINGS k \<noteq> None"
  shows "plant_inv (snd (associate_loop p e ks)) \<and>
         (\<forall>k. fst (associate_loop p e ks) = Inr k \<longrightarrow>
              map_of (p_readings (snd (associate_loop p e ks))) k \<noteq> None)"
  using assms(2)
proof (induction ks)
  case Nil
  from assms(1) show ?case by simp
next
  case (Cons k ks)
  show ?case
  proof (cases "contains k e")
    case False
    with Cons show ?thesis by simp
  next
    case True
    let ?p1 = "p\<lparr>p_sensors := AList.update e k (p_sensors p)\<rparr>"
    show ?thesis
    proof (cases "map_of (p_readings p) k")
      case None
      from Cons.prems obtain u where "map_of READINGS k = Some u" by auto
      then obtain p2 where p2: "add_reading ?p1 k e = Inr p2"
        by (simp add: add_reading_def)
      from plant_inv_cache_add_reading [OF assms(1) p2] True None p2
      show ?thesis by (simp add: Let_def)
    next
      case (Some r)
      let ?r = "r\<lparr>r_sensors := r_sensors r @ [e]\<rparr>"
      let ?p2 = "?p1\<lparr>p_readings := AList.update k ?r (p_readings p)\<rparr>"
      from readings_ok_lookup [OF _ Some] assms(1)
      have kin: "k \<in> set (map fst READINGS)" and st: "r_state r = PNone \<or> isinstance_number (r_state r)"
        by (simp_all add: plant_inv_def)
      have 1: "readings_ok (p_readings ?p2)"
        using assms(1) kin st by (simp add: plant_inv_def readings_ok_update)
      have 2: "map_of (p_readings ?p2) k \<noteq> None" by (simp add: update_conv')
      have "sensors_ok (p_sensors p) (p_readings ?p2)"
        using assms(1) by (simp add: plant_inv_def sensors_ok_update)
      then have 3: "sensors_ok (p_sensors ?p2) (p_readings ?p2)"
        using sensors_ok_cache [OF _ 2, of "p_sensors p" e] by simp
      from 1 3 assms(1) have "plant_inv ?p2" by (simp add: plant_inv_def)
      with True Some 2 show ?thesis by (simp add: Let_def)
    qed
  qed
qed

lemma plant_inv_resolve_reading:
  assumes "plant_inv p"
  shows "plant_inv (snd (resolve_reading p e)) \<and>
         (\<forall>k. fst (resolve_reading p e) = Inr k \<longrightarrow>
              map_of (p_readings (snd (resolve_reading p e))) k \<noteq> None)"
proof -
  have all: "\<forall>r\<in>set (map fst READINGS). map_of READINGS r \<noteq> None"
    using READINGS_lookup by blast
  note loop = plant_inv_associate_loop [OF assms all, of e, folded associate_sensor_def]
  show ?thesis
  proof (cases "map_of (p_sensors p) e")
    case None
    with loop show ?thesis by (simp add: resolve_reading_def)
  next
    case (Some k)
    show ?thesis
    proof (cases "k = []")
      case True
      with Some loop show ?thesis by (simp add: resolve_reading_def)
    next
      case False
      from assms Some have "map_of (p_readings p) k \<noteq> None"
        by (auto simp: plant_inv_def dest: sensors_ok_lookup)
      with Some False assms show ?thesis by (simp add: resolve_reading_def)
    qed
  qed
qed

subsection \<open>No problem string mentions the unavailable state\<close>

lemma names_not_unavailable:
  assumes "k \<in> set (map fst READINGS)"
  shows "\<not> contains STATE_UNAVAILABLE (k @ '' low'')"
    and "\<not> contains STATE_UNAVAILABLE (k @ '' high'')"
  using assms by (auto simp: READINGS_def consts_defs)

lemma check_reading_ok:
  assumes "readings_ok (p_readings p)" "check_reading pf p k = Inr (Some m)"
  shows "\<not> contains STATE_UNAVAILABLE m" "m \<noteq> k @ '' '' @ STATE_UNAVAILABLE"
proof -
  from assms(2) obtain r where r: "map_of (p_readings p) k = Some r"
    by (auto simp: check_reading_def split: option.splits)
  from readings_ok_lookup [OF assms(1) r]
  have kin: "k \<in> set (map fst READINGS)" and st: "r_state r \<noteq> PStr STATE_UNAVAILABLE"
    by auto
  from check_reading_cases [OF assms(2)] r st
  have m: "m = k @ '' low'' \<or> m = k @ '' high''" by auto
  then show "\<not> contains STATE_UNAVAILABLE m"
    using names_not_unavailable [OF kin] by auto
  from m show "m \<noteq> k @ '' '' @ STATE_UNAVAILABLE"
    by (auto simp: STATE_UNAVAILABLE_def)
qed

lemma check_all_ok:
  assumes "readings_ok (p_readings p)" "check_all pf p ks = Inr results" "Some m \<in> set results"
  shows "\<not> contains STATE_UNAVAILABLE m"
proof -
  from check_all_results [OF assms(2)] have "map (check_reading pf p) ks = map Inr results" .
  then have "Inr (Some m) \<in> set (map (check_reading pf p) ks)" using assms(3) by simp
  then obtain k where "check_reading pf p k = Inr (Some m)" by auto
  with assms(1) show ?thesis by (rule check_reading_ok(1))
qed

lemma plant_inv_update_state:
  assumes "plant_inv p"
  shows "plant_inv (snd (update_state pf p))"
proof (cases "check_all pf p (map fst (p_readings p))")
  case (Inl e)
  with assms show ?thesis by (simp add: update_state_def)
next
  case (Inr results)
  let ?problems = "map the (filter (\<lambda>x. x \<noteq> None) results)"
  have ro: "readings_ok (p_readings p)" using assms by (simp add: plant_inv_def)
  have no: "\<not> contains STATE_UNAVAILABLE m" if "m \<in> set ?problems" for m
  proof -
    from that have "Some m \<in> set results" by auto
    with ro Inr show ?thesis by (rule check_all_ok)
  qed
  have "\<not> list_all (contains STATE_UNAVAILABLE) ?problems" if "?problems \<noteq> []"
  proof -
    from that obtain m where "m \<in> set ?problems" by (meson last_in_set)
    with no show ?thesis by (auto simp: list_all_iff)
  qed
  with assms Inr show ?thesis
    by (auto simp: update_state_def Let_def plant_inv_def consts_defs)
qed

lemma plant_inv_store_state:
  assumes "plant_inv p"
  shows "plant_inv (snd (store_state pf now p k ns))"
proof (cases "pf (ns_state ns)")
  case None
  with assms show ?thesis by (simp add: store_state_def)
next
  case (Some f)
  show ?thesis
  proof (cases "map_of (p_readings p) k")
    case None
    with Some assms show ?thesis by (simp add: store_state_def Let_def)
  next
    case r: (Some r)
    define x where "x = (if k \<notin> set [READING_TEMP, READING_ENV_HUMID] then py_int f else f)"
    define rs where "rs = AList.update k (r\<lparr>r_state := PNum x\<rparr>) (p_readings p)"
    define p2 where "p2 = p\<lparr>p_readings := rs\<rparr>"
    define eh where "eh = (if k = READING_LIGHT_LUX
        then add_measurement now (p_brightness_history p2) (PNum x) (Some (ns_last_updated ns))
        else (None, p_brightness_history p2))"
    define p3 where "p3 = p2\<lparr>p_brightness_history := snd eh\<rparr>"
    have eq: "store_state pf now p k ns =
        (case fst eh of
           Some err \<Rightarrow> (Some err, p3)
         | None \<Rightarrow>
             (case ns_attributes ns ATTR_UNIT_OF_MEASUREMENT of
                None \<Rightarrow> update_state pf p3
              | Some u \<Rightarrow>
                  update_state pf
                    (p3\<lparr>p_readings :=
                         AList.map_entry k (\<lambda>r'. r'\<lparr>r_unit_of_measurement := u\<rparr>)
                           (p_readings p3)\<rparr>)))"
      unfolding store_state_def Let_def x_def rs_def eh_def p3_def p2_def
      by (simp only: Some r option.case)
    have rs3: "p_readings p3 = rs" by (simp add: p3_def p2_def)
    from readings_ok_lookup [OF _ r] assms have kin: "k \<in> set (map fst READINGS)"
      by (simp add: plant_inv_def)
    have ro: "readings_ok rs"
      unfolding rs_def using assms kin by (intro readings_ok_update) (simp_all add: plant_inv_def)
    have so: "sensors_ok (p_sensors p) rs"
      unfolding rs_def using assms by (simp add: plant_inv_def sensors_ok_update)
    have inv3: "plant_inv p3"
      using ro so assms by (simp add: plant_inv_def p3_def p2_def)
    have inv4: "plant_inv (p3\<lparr>p_readings :=
        AList.map_entry k (\<lambda>r'. r'\<lparr>r_unit_of_measurement := u\<rparr>) (p_readings p3)\<rparr>)" for u
      using readings_ok_map_entry [OF ro, of "\<lambda>r'. r'\<lparr>r_unit_of_measurement := u\<rparr>" k]
        sensors_ok_map_entry [OF so] assms
      by (simp add: plant_inv_def p3_def p2_def)
    show ?thesis
      unfolding eq using inv3 inv4
      by (simp add: plant_inv_update_state split: option.splits)
  qed
qed

lemma plant_inv_state_changed:
  assumes "plant_inv p"
  shows "plant_inv (snd (state_changed pf st now p e ns))"
proof -
  from plant_inv_resolve_reading [OF assms, of e]
  have "plant_inv (snd (resolve_reading p e))" by simp
  then show ?thesis
    by (auto simp: state_changed_def Let_def plant_inv_store_state
        split: prod.splits sum.splits option.splits)
qed

lemma plant_inv_run: "plant_inv p \<Longrightarrow> plant_inv (run pf p evs)"
proof (induction evs rule: rev_induct)
  case Nil
  then show ?case by (simp add: run_def)
next
  case (snoc ev evs)
  then show ?case by (cases ev) (simp add: run_def plant_inv_state_changed)
qed

lemma state_changed_unavailable:
  assumes "plant_inv p" "registry_ok st" "ns_state ns = STATE_UNAVAILABLE"
  shows "state_changed pf st now p e ns =
           (case resolve_reading p e of
              (Inl err, p1) \<Rightarrow> (Some err, p1)
            | (Inr k, p1) \<Rightarrow> (None, p1))"
proof (cases "resolve_reading p e")
  case (Pair res p1)
  show ?thesis
  proof (cases res)
    case (Inl err)
    with Pair show ?thesis by (simp add: state_changed_def)
  next
    case (Inr k)
    from plant_inv_resolve_reading [OF assms(1), of e] Pair Inr
    obtain r where r: "map_of (p_readings p1) k = Some r" by auto
    from assms(2) have "list_ex (\<lambda>sensor. \<not> is_state st sensor STATE_UNAVAILABLE) (reading_keys r)"
      by (simp add: registry_ok_def reading_keys_def is_state_def)
    with Pair Inr r assms(3) show ?thesis
      by (simp add: state_changed_def Let_def consts_defs)
  qed
qed

subsection \<open>Evaluation at concrete inputs\<close>

lemmas eval_defs = add_reading_def READINGS_def config_get_def state_changed_def
  store_state_def resolve_reading_def associate_sensor_def update_state_def check_reading_def
  check_min_def check_max_def reading_keys_def is_state_def py_int_def
  add_measurement_def add_day_def append_day_def max_values_def date_def DailyHistory_def

lemma Plant_example_config:
  "Plant (example_config lo hi) = Inr (example_plant lo hi PNone PNone)"
  by (simp add: Plant_def example_config_def example_plant_def eval_defs consts_defs)

lemma Plant_light_config: "Plant light_config = Inr light_plant"
  by (simp add: Plant_def light_config_def light_plant_def eval_defs consts_defs)

text \<open>
  Claim C2, evaluated. The plant has one reading, light, with one sensor; the sensor
  reports "unavailable" and the registry holds that state for it. The callback returns
  with the plant unchanged: the stored state is still \<open>None\<close>, the check of the reading
  gives no problem, and the status is not set.
\<close>

theorem C2_only_sensor_unavailable_ignored:
  "Plant light_config = Inr light_plant \<and>
   state_changed pf [''sensor.plant_light'' \<mapsto> ''unavailable''] (7, 0) light_plant
     ''sensor.plant_light''
     \<lparr>ns_state = ''unavailable'', ns_last_updated = (7, 0), ns_attributes = Map.empty\<rparr>
     = (None, light_plant) \<and>
   map_option r_state (map_of (p_readings light_plant) READING_LIGHT_LUX) = Some PNone \<and>
   check_reading pf light_plant READING_LIGHT_LUX = Inr None \<and>
   p_state light_plant = None"
  by (simp add: Plant_light_config) (simp add: light_plant_def eval_defs consts_defs)

text \<open>
  Claim C4, evaluated. Temperature with the configured minimum 0 and maximum 30; the sensor
  reports -5. The callback stores -5 and sets the status "ok"; the check of the reading
  gives no problem, where the claim has "temp low".
\<close>

theorem C4_zero_minimum_not_checked:
  "Plant (example_config (PNum 0) (PNum 30)) = Inr (example_plant (PNum 0) (PNum 30) PNone PNone) \<and>
   state_changed (\<lambda>s. if s = ''-5'' then Some (- 5) else None) Map.empty (7, 0)
     (example_plant (PNum 0) (PNum 30) PNone PNone) ''sensor.balcony_temp''
     \<lparr>ns_state = ''-5'', ns_last_updated = (7, 0), ns_attributes = Map.empty\<rparr>
     = (None, (example_plant (PNum 0) (PNum 30) (PNum (- 5)) PNone)\<lparr>p_state := Some ''ok''\<rparr>) \<and>
   check_reading pf (example_plant (PNum 0) (PNum 30) (PNum (- 5)) PNone) ''temp'' = Inr None"
  by (simp add: Plant_example_config) (simp add: example_plant_def eval_defs consts_defs)

text \<open>The scenario of the specification: minimum 10, maximum 30, states 5, 35 and 20.\<close>

lemma check_reading_scenario:
  "check_reading pf (example_plant (PNum 10) (PNum 30) (PNum 5) PNone) ''temp'' = Inr (Some ''temp low'')"
  "check_reading pf (example_plant (PNum 10) (PNum 30) (PNum 35) PNone) ''temp'' = Inr (Some ''temp high'')"
  "check_reading pf (example_plant (PNum 10) (PNum 30) (PNum 20) PNone) ''temp'' = Inr None"
  by (simp_all add: example_plant_def eval_defs consts_defs)

text \<open>
  With the stored state a number and both bounds absent or numbers other than zero, the
  check is the one of the specification: the minimum first, on the maximum of the history
  for the light and on the stored state otherwise, then the maximum on the stored state.
\<close>

lemma check_reading_bounds:
  assumes "map_of (p_readings p) k = Some r" "r_state r = PNum x"
    and "r_minimum r = PNone \<or> (\<exists>b. r_minimum r = PNum b \<and> b \<noteq> 0)"
    and "r_maximum r = PNone \<or> (\<exists>b. r_maximum r = PNum b \<and> b \<noteq> 0)"
    and "(if k = READING_LIGHT_LUX then max_attr (p_brightness_history p) else Some x) = Some v"
  shows "check_reading pf p k =
           Inr (if \<exists>b. r_minimum r = PNum b \<and> v < b then Some (k @ '' low'')
                else if \<exists>b. r_maximum r = PNum b \<and> b < x then Some (k @ '' high'')
                else None)"
  using assms
  by (auto simp: check_reading_def check_min_def check_max_def Let_def STATE_UNAVAILABLE_def
      split: if_splits)


lemma check_all_example:
  "check_all pf (example_plant (PNum 10) (PNum 30) (PNum 20) (PNum 40)) [''temp'', ''soil_moist'']
     = Inr [None, None]"
  "check_all pf (example_plant (PNum 10) (PNum 30) (PNum 35) (PNum 10)) [''temp'', ''soil_moist'']
     = Inr [Some ''temp high'', Some ''soil_moist low'']"
  "check_all pf (example_plant (PNum 10) (PNum 30) (PStr ''unavailable'') PNone) [''temp'', ''soil_moist'']
     = Inr [Some ''temp unavailable'', None]"
  by (simp_all add: example_plant_def eval_defs consts_defs)

text \<open>One plant for each of the three outcomes.\<close>

theorem C7_update_state_witness:
  "update_state (\<lambda>s. None) (example_plant (PNum 10) (PNum 30) (PNum 20) (PNum 40)) =
     (None, (example_plant (PNum 10) (PNum 30) (PNum 20) (PNum 40))
              \<lparr>p_state := Some ''ok'', p_problems := ''none''\<rparr>) \<and>
   update_state (\<lambda>s. None) (example_plant (PNum 10) (PNum 30) (PNum 35) (PNum 10)) =
     (None, (example_plant (PNum 10) (PNum 30) (PNum 35) (PNum 10))
              \<lparr>p_state := Some ''problem'', p_problems := ''temp high, soil_moist low''\<rparr>) \<and>
   update_state (\<lambda>s. None) (example_plant (PNum 10) (PNum 30) (PStr ''unavailable'') PNone) =
     (None, (example_plant (PNum 10) (PNum 30) (PStr ''unavailable'') PNone)
              \<lparr>p_state := Some ''unavailable'', p_problems := ''temp unavailable''\<rparr>)"
proof -
  let ?pf = "\<lambda>s::string. None :: rat option"
  let ?A = "example_plant (PNum 10) (PNum 30) (PNum 20) (PNum 40)"
  let ?B = "example_plant (PNum 10) (PNum 30) (PNum 35) (PNum 10)"
  let ?C = "example_plant (PNum 10) (PNum 30) (PStr ''unavailable'') PNone"
  have keys: "map fst (p_readings (example_plant lo hi s1 s2)) = [''temp'', ''soil_moist'']"
    for lo hi s1 s2 by (simp add: example_plant_def)
  have a: "check_all ?pf ?A (map fst (p_readings ?A)) = Inr [None, None]"
    unfolding keys by (rule check_all_example)
  have b: "check_all ?pf ?B (map fst (p_readings ?B)) = Inr [Some ''temp high'', Some ''soil_moist low'']"
    unfolding keys by (rule check_all_example)
  have c: "check_all ?pf ?C (map fst (p_readings ?C)) = Inr [Some ''temp unavailable'', None]"
    unfolding keys by (rule check_all_example)
  from C7_update_state [OF a refl]
  have 1: "update_state ?pf ?A = (None, ?A\<lparr>p_state := Some ''ok'', p_problems := ''none''\<rparr>)"
    by (simp add: consts_defs)
  from C7_update_state [OF b refl]
  have 2: "update_state ?pf ?B =
      (None, ?B\<lparr>p_state := Some ''problem'', p_problems := ''temp high, soil_moist low''\<rparr>)"
    by (simp add: consts_defs)
  from C7_update_state [OF c refl]
  have 3: "update_state ?pf ?C =
      (None, ?C\<lparr>p_state := Some ''unavailable'', p_problems := ''temp unavailable''\<rparr>)"
    by (simp add: consts_defs)
  from 1 2 3 show ?thesis by simp
qed

text \<open>
  \<open>sensor.temp_battery\<close> contains "temp" and "battery" and is associated with "temp";
  \<open>sensor.kitchen_1\<close> contains no reading name.
\<close>

theorem C8_association_witness:
  "map_of (p_sensors (example_plant (PNum 10) (PNum 30) PNone PNone)) ''sensor.temp_battery'' = None \<and>
   find (\<lambda>r. contains r ''sensor.temp_battery'')
     [READING_LIGHT_LUX, READING_TEMP, READING_ENV_HUMID, READING_SOIL_MOIST, READING_SOIL_EC,
      READING_BATTERY] = Some ''temp'' \<and>
   map_of (p_sensors (snd (state_changed (\<lambda>s. None) Map.empty (7, 0)
       (example_plant (PNum 10) (PNum 30) PNone PNone) ''sensor.temp_battery''
       \<lparr>ns_state = ''unknown'', ns_last_updated = (7, 0), ns_attributes = Map.empty\<rparr>)))
     ''sensor.temp_battery'' = Some ''temp'' \<and>
   map_of (p_sensors (example_plant (PNum 10) (PNum 30) PNone PNone)) ''sensor.kitchen_1'' = None \<and>
   find (\<lambda>r. contains r ''sensor.kitchen_1'')
     [READING_LIGHT_LUX, READING_TEMP, READING_ENV_HUMID, READING_SOIL_MOIST, READING_SOIL_EC,
      READING_BATTERY] = None \<and>
   state_changed (\<lambda>s. None) Map.empty (7, 0)
       (example_plant (PNum 10) (PNum 30) PNone PNone) ''sensor.kitchen_1''
       \<lparr>ns_state = ''21'', ns_last_updated = (7, 0), ns_attributes = Map.empty\<rparr> =
     (Some (HomeAssistantError ''Cannot extract reading from sensor sensor.kitchen_1''),
      example_plant (PNum 10) (PNum 30) PNone PNone)"
proof -
  let ?p = "example_plant (PNum 10) (PNum 30) PNone PNone"
  have u1: "map_of (p_sensors ?p) ''sensor.temp_battery'' = None"
    by (simp add: example_plant_def)
  have f1: "find (\<lambda>r. contains r ''sensor.temp_battery'')
     [READING_LIGHT_LUX, READING_TEMP, READING_ENV_HUMID, READING_SOIL_MOIST, READING_SOIL_EC,
      READING_BATTERY] = Some ''temp''"
    by (simp add: consts_defs)
  have u2: "map_of (p_sensors ?p) ''sensor.kitchen_1'' = None"
    by (simp add: example_plant_def)
  have f2: "find (\<lambda>r. contains r ''sensor.kitchen_1'')
     [READING_LIGHT_LUX, READING_TEMP, READING_ENV_HUMID, READING_SOIL_MOIST, READING_SOIL_EC,
      READING_BATTERY] = None"
    by (simp add: consts_defs)
  from C8_association [OF u1, of "\<lambda>s. None" Map.empty "(7, 0)"
      "\<lparr>ns_state = ''unknown'', ns_last_updated = (7, 0), ns_attributes = Map.empty\<rparr>"] f1
  have 1: "map_of (p_sensors (snd (state_changed (\<lambda>s. None) Map.empty (7, 0) ?p
       ''sensor.temp_battery''
       \<lparr>ns_state = ''unknown'', ns_last_updated = (7, 0), ns_attributes = Map.empty\<rparr>)))
     ''sensor.temp_battery'' = Some ''temp''"
    by blast
  from C8_association [OF u2, of "\<lambda>s. None" Map.empty "(7, 0)"
      "\<lparr>ns_state = ''21'', ns_last_updated = (7, 0), ns_attributes = Map.empty\<rparr>"] f2
  have 2: "state_changed (\<lambda>s. None) Map.empty (7, 0) ?p ''sensor.kitchen_1''
       \<lparr>ns_state = ''21'', ns_last_updated = (7, 0), ns_attributes = Map.empty\<rparr> =
     (Some (HomeAssistantError ''Cannot extract reading from sensor sensor.kitchen_1''), ?p)"
    by simp
  from u1 f1 1 u2 f2 2 show ?thesis by blast
qed

text \<open>
  Claim C9. In every state a constructed plant reaches by a sequence of callbacks, each
  stored state is \<open>None\<close> or a number, no check yields the problem
  "<reading> unavailable", and the status is not "unavailable". In such a state a callback
  with the state "unavailable", under a registry with no entity named like a key of the
  reading record, does nothing after resolving the reading: it returns normally with the
  plant as the lookup left it.
\<close>

theorem C9_never_unavailable:
  assumes "Plant c = Inr p0"
  shows "(\<forall>(k, r)\<in>set (p_readings (run pf p0 evs)).
            r_state r = PNone \<or> isinstance_number (r_state r)) \<and>
         (\<forall>k. check_reading pf (run pf p0 evs) k \<noteq> Inr (Some (k @ '' '' @ STATE_UNAVAILABLE))) \<and>
         p_state (run pf p0 evs) \<noteq> Some STATE_UNAVAILABLE \<and>
         (\<forall>st now e ns.
            registry_ok st \<and> ns_state ns = STATE_UNAVAILABLE \<longrightarrow>
            state_changed pf st now (run pf p0 evs) e ns =
              (case resolve_reading (run pf p0 evs) e of
                 (Inl err, p1) \<Rightarrow> (Some err, p1)
               | (Inr k, p1) \<Rightarrow> (None, p1)))"
proof -
  from assms have "plant_inv p0" by (rule plant_inv_Plant)
  then have inv: "plant_inv (run pf p0 evs)" by (rule plant_inv_run)
  then have ro: "readings_ok (p_readings (run pf p0 evs))" by (simp add: plant_inv_def)
  have 1: "\<forall>(k, r)\<in>set (p_readings (run pf p0 evs)).
            r_state r = PNone \<or> isinstance_number (r_state r)"
    using ro by (auto simp: readings_ok_def)
  have 2: "check_reading pf (run pf p0 evs) k \<noteq> Inr (Some (k @ '' '' @ STATE_UNAVAILABLE))" for k
    using check_reading_ok(2) [OF ro] by blast
  have 3: "p_state (run pf p0 evs) \<noteq> Some STATE_UNAVAILABLE"
    using inv by (simp add: plant_inv_def)
  have 4: "state_changed pf st now (run pf p0 evs) e ns =
              (case resolve_reading (run pf p0 evs) e of
                 (Inl err, p1) \<Rightarrow> (Some err, p1)
               | (Inr k, p1) \<Rightarrow> (None, p1))"
    if "registry_ok st" "ns_state ns = STATE_UNAVAILABLE" for st now e ns
    using inv that by (rule state_changed_unavailable)
  from 1 2 3 4 show ?thesis by blast
qed

text \<open>
  The only sensor of a plant reports 500 and then "unavailable", the registry agreeing:
  the second callback changes nothing.
\<close>

theorem C9_never_unavailable_witness:
  "Plant light_config = Inr light_plant \<and>
   registry_ok [''sensor.plant_light'' \<mapsto> ''unavailable''] \<and>
   map_option r_state
     (map_of (p_readings (run (\<lambda>s. if s = ''500'' then Some 500 else None) light_plant
        [(Map.empty, (7, 0), ''sensor.plant_light'',
          \<lparr>ns_state = ''500'', ns_last_updated = (7, 0), ns_attributes = Map.empty\<rparr>)]))
        ''light_lux'') = Some (PNum 500) \<and>
   p_state (run (\<lambda>s. if s = ''500'' then Some 500 else None) light_plant
        [(Map.empty, (7, 0), ''sensor.plant_light'',
          \<lparr>ns_state = ''500'', ns_last_updated = (7, 0), ns_attributes = Map.empty\<rparr>)])
     = Some ''ok'' \<and>
   state_changed (\<lambda>s. if s = ''500'' then Some 500 else None)
     [''sensor.plant_light'' \<mapsto> ''unavailable''] (8, 0)
     (run (\<lambda>s. if s = ''500'' then Some 500 else None) light_plant
        [(Map.empty, (7, 0), ''sensor.plant_light'',
          \<lparr>ns_state = ''500'', ns_last_updated = (7, 0), ns_attributes = Map.empty\<rparr>)])
     ''sensor.plant_light''
     \<lparr>ns_state = ''unavailable'', ns_last_updated = (8, 0), ns_attributes = Map.empty\<rparr>
   = (None,
      run (\<lambda>s. if s = ''500'' then Some 500 else None) light_plant
        [(Map.empty, (7, 0), ''sensor.plant_light'',
          \<lparr>ns_state = ''500'', ns_last_updated = (7, 0), ns_attributes = Map.empty\<rparr>)])"
proof -
  let ?pf = "\<lambda>s. if s = ''500'' then Some (500::rat) else None"
  let ?evs = "[(Map.empty, (7::nat, 0::nat), ''sensor.plant_light'',
          \<lparr>ns_state = ''500'', ns_last_updated = (7::nat, 0::nat),
           ns_attributes = (Map.empty :: string \<rightharpoonup> string)\<rparr>)] :: event list"
  let ?st = "[''sensor.plant_light'' \<mapsto> ''unavailable''] :: hass_states"
  let ?ns = "\<lparr>ns_state = ''unavailable'', ns_last_updated = (8::nat, 0::nat),
           ns_attributes = (Map.empty :: string \<rightharpoonup> string)\<rparr>"
  have reg: "registry_ok ?st" by (simp add: registry_ok_def consts_defs)
  have un: "ns_state ?ns = STATE_UNAVAILABLE" by (simp add: consts_defs)
  have r: "run ?pf light_plant ?evs =
     light_plant\<lparr>p_readings :=
        [(''light_lux'',
          \<lparr>r_sensors = [''sensor.plant_light''], r_state = PNum 500,
           r_unit_of_measurement = ''lux'', r_minimum = PNone, r_maximum = PNone\<rparr>)],
      p_state := Some ''ok'',
      p_brightness_history :=
        \<lparr>max_length = 3, days = Some [7], max_dict = [(7, 500)], max_attr = Some 500\<rparr>\<rparr>"
    by (simp add: run_def light_plant_def eval_defs consts_defs)
  have res: "resolve_reading (run ?pf light_plant ?evs) ''sensor.plant_light'' =
        (Inr ''light_lux'', run ?pf light_plant ?evs)"
    unfolding r by (simp add: resolve_reading_def light_plant_def)
  from C9_never_unavailable [OF Plant_light_config, of ?pf ?evs] reg un
  have "state_changed ?pf ?st (8, 0) (run ?pf light_plant ?evs) ''sensor.plant_light'' ?ns =
              (case resolve_reading (run ?pf light_plant ?evs) ''sensor.plant_light'' of
                 (Inl err, p1) \<Rightarrow> (Some err, p1)
               | (Inr k, p1) \<Rightarrow> (None, p1))"
    by blast
  then have 1: "state_changed ?pf ?st (8, 0) (run ?pf light_plant ?evs) ''sensor.plant_light'' ?ns =
     (None, run ?pf light_plant ?evs)"
    by (simp only: res prod.case sum.case)
  have 2: "map_option r_state (map_of (p_readings (run ?pf light_plant ?evs)) ''light_lux'')
      = Some (PNum 500)"
    unfolding r by (simp add: light_plant_def)
  have 3: "p_state (run ?pf light_plant ?evs) = Some ''ok''"
    unfolding r by (simp add: light_plant_def)
  from Plant_light_config reg 1 2 3 show ?thesis by blast
qed

subsection \<open>Bounds that are text\<close>

text \<open>
  The bounds of a plant taken from the plant database are the text of its CSV cells. A
  text bound is tested for truth as a string, so every non-empty text is checked, the text
  of a zero too: for a reading other than the light whose minimum is a non-empty text that
  \<open>float\<close> reads as \<open>b\<close>, a numeric state below \<open>b\<close> is reported low.
\<close>

lemma check_min_text_bound:
  assumes "map_of (p_readings p) k = Some r" "r_minimum r = PStr s" "s \<noteq> []" "pf s = Some b"
    and "k \<noteq> READING_LIGHT_LUX"
  shows "check_min pf p k (PNum x) = Inr (if x < b then Some (k @ '' low'') else None)"
  using assms by (simp add: check_min_def Let_def)

lemma check_max_text_bound:
  assumes "map_of (p_readings p) k = Some r" "r_maximum r = PStr s" "s \<noteq> []" "pf s = Some b"
  shows "check_max pf p k (PNum x) = Inr (if b < x then Some (k @ '' high'') else None)"
  using assms by (simp add: check_max_def Let_def)



end
